theory Spec2Isabelle
  imports
    Main
    "HOL-Library.Word"
    "HOL-Library.Log_Nat"
    "HOL-Library.Signed_Division"
begin

unbundle bit_operations_syntax

text \<open>
  A shallow embedding of \<open>cpp/include/cudf/fixed_point/fixed_point.hpp\<close>: the
  class template \<open>fixed_point<Rep, Rad>\<close>, the shift helpers in \<open>detail\<close>, the four
  overflow predicates and the arithmetic operators. Template parameters become
  arguments (\<open>Rad\<close>) or type variables (\<open>Rep\<close> is \<open>'a word\<close>), and the preprocessor
  switch \<open>__CUDACC_DEBUG__\<close> becomes a boolean argument of the operators.
\<close>

section \<open>The platform: \<open>double\<close>, integer conversions\<close>

text \<open>
  \<open>fixed_point.hpp\<close> computes every shift with \<open>std::pow\<close>, so each shifted value is
  a C++ \<open>double\<close> before it is stored back in the representation type. The model
  therefore carries IEEE-754 binary64 values: a finite value is the rational it
  denotes, and the three special results are separate constructors. Arithmetic is
  the exact rational operation followed by rounding to nearest, ties to even, at
  53 bits of precision, with gradual underflow below \<open>2 ^ -1022\<close> and overflow to
  infinity from \<open>2 ^ 1024\<close> on.

  Zero carries no sign, which the code modelled here cannot observe: the only
  \<open>double\<close> divisors are results of \<open>std::pow\<close>, which are never negative.
\<close>

datatype double = Finite rat | PInf | NInf | NaN

definition round_ties_even :: "rat \<Rightarrow> int" where
  "round_ties_even x =
     (let f = \<lfloor>x\<rfloor>; r = x - of_int f
      in if r < 1 / 2 then f
         else if 1 / 2 < r then f + 1
         else if even f then f else f + 1)"

definition floor_log2 :: "rat \<Rightarrow> int" where
  \<comment> \<open>for \<open>0 < x\<close>: the \<open>e\<close> with \<open>2 powi e \<le> x < 2 powi (e + 1)\<close>\<close>
  "floor_log2 x = (if 1 \<le> x then bitlen \<lfloor>x\<rfloor> - 1 else - bitlen (\<lceil>1 / x\<rceil> - 1))"

definition signed_inf :: "rat \<Rightarrow> double" where
  "signed_inf s = (if s < 0 then NInf else PInf)"

definition round_double :: "rat \<Rightarrow> double" where
  "round_double x =
     (if x = 0 then Finite 0
      else let e = max (floor_log2 \<bar>x\<bar> - 52) (- 1074);
               m = round_ties_even (\<bar>x\<bar> / 2 powi e);
               y = of_int m * 2 powi e
           in if 2 ^ 1024 \<le> y then signed_inf x else Finite (sgn x * y))"

definition dsgn :: "double \<Rightarrow> rat" where
  "dsgn x = (case x of Finite a \<Rightarrow> sgn a | PInf \<Rightarrow> 1 | NInf \<Rightarrow> - 1 | NaN \<Rightarrow> 0)"

definition is_inf :: "double \<Rightarrow> bool" where
  "is_inf x = (x = PInf \<or> x = NInf)"

definition fmul :: "double \<Rightarrow> double \<Rightarrow> double" where
  "fmul x y =
     (case (x, y) of
        (Finite a, Finite b) \<Rightarrow> round_double (a * b)
      | _ \<Rightarrow> if x = NaN \<or> y = NaN \<or> dsgn x * dsgn y = 0 then NaN
             else signed_inf (dsgn x * dsgn y))"

definition fdiv :: "double \<Rightarrow> double \<Rightarrow> double" where
  "fdiv x y =
     (case (x, y) of
        (Finite a, Finite b) \<Rightarrow>
          if b = 0 then (if a = 0 then NaN else signed_inf a) else round_double (a / b)
      | _ \<Rightarrow> if x = NaN \<or> y = NaN \<or> (is_inf x \<and> is_inf y) then NaN
             else if is_inf y then Finite 0
             else signed_inf (dsgn x * (if dsgn y < 0 then - 1 else 1)))"

definition fadd :: "double \<Rightarrow> double \<Rightarrow> double" where
  "fadd x y =
     (case (x, y) of
        (Finite a, Finite b) \<Rightarrow> round_double (a + b)
      | _ \<Rightarrow> if x = NaN \<or> y = NaN \<or> (is_inf x \<and> is_inf y \<and> x \<noteq> y) then NaN
             else if is_inf x then x else y)"

definition fneg :: "double \<Rightarrow> double" where
  "fneg x = (case x of Finite a \<Rightarrow> Finite (- a) | PInf \<Rightarrow> NInf | NInf \<Rightarrow> PInf | NaN \<Rightarrow> NaN)"

definition fsub :: "double \<Rightarrow> double \<Rightarrow> double" where
  "fsub x y = fadd x (fneg y)"

definition ord_key :: "double \<Rightarrow> int \<times> rat" where
  "ord_key x = (case x of Finite a \<Rightarrow> (0, a) | PInf \<Rightarrow> (1, 0) | NInf \<Rightarrow> (- 1, 0) | NaN \<Rightarrow> (0, 0))"

definition fless :: "double \<Rightarrow> double \<Rightarrow> bool" where
  \<comment> \<open>\<open><\<close> on \<open>double\<close>: false as soon as one side is NaN\<close>
  "fless x y =
     (x \<noteq> NaN \<and> y \<noteq> NaN \<and>
      (fst (ord_key x) < fst (ord_key y) \<or>
       fst (ord_key x) = fst (ord_key y) \<and> snd (ord_key x) < snd (ord_key y)))"

definition int_to_double :: "int \<Rightarrow> double" where
  "int_to_double n = round_double (of_int n)"

definition trunc :: "rat \<Rightarrow> int" where
  "trunc x = (if 0 \<le> x then \<lfloor>x\<rfloor> else \<lceil>x\<rceil>)"

text \<open>
  The limits of a signed representation of \<open>LENGTH('a)\<close> bits,
  \<open>std::numeric_limits<Rep>::min()\<close> and \<open>max()\<close>, as integers.
\<close>

definition rep_min :: "'a::len itself \<Rightarrow> int" where
  "rep_min _ = - (2 ^ (LENGTH('a) - 1))"

definition rep_max :: "'a::len itself \<Rightarrow> int" where
  "rep_max _ = 2 ^ (LENGTH('a) - 1) - 1"

text \<open>
  Converting a \<open>double\<close> to a signed integer type truncates toward zero; when the
  truncated value does not fit, or the \<open>double\<close> is not finite, C++ defines no
  result, which is \<open>None\<close> here.
\<close>

definition double_to_rep :: "double \<Rightarrow> 'a::len word option" where
  "double_to_rep x =
     (case x of
        Finite a \<Rightarrow>
          if rep_min TYPE('a) \<le> trunc a \<and> trunc a \<le> rep_max TYPE('a)
          then Some (word_of_int (trunc a)) else None
      | _ \<Rightarrow> None)"

definition rep_to_double :: "'a::len word \<Rightarrow> double" where
  "rep_to_double v = int_to_double (sint v)"

section \<open>Scale, radix and the shift helpers\<close>

type_synonym scale_type = "32 word"

datatype Radix = BASE_2 | BASE_10

definition radix_val :: "Radix \<Rightarrow> int" where
  "radix_val r = (case r of BASE_2 \<Rightarrow> 2 | BASE_10 \<Rightarrow> 10)"

definition negate :: "scale_type \<Rightarrow> scale_type" where
  \<comment> \<open>\<open>-1 * scale\<close> in \<open>int32_t\<close>: at the least scale the product wraps around to that scale\<close>
  "negate scale = (- 1) * scale"

text \<open>
  \<open>std::pow\<close> belongs to the C++ library, not to this file, and the library does
  not fix its value where the power is not itself a \<open>double\<close>. It is therefore a
  parameter \<open>pw\<close> of everything that shifts: \<open>pw b e\<close> is what
  \<open>std::pow(b, e)\<close> returns for the two \<open>int32_t\<close> arguments.
\<close>

type_synonym pow_fn = "int \<Rightarrow> int \<Rightarrow> double"

definition std_pow :: "pow_fn \<Rightarrow> Radix \<Rightarrow> scale_type \<Rightarrow> double" where
  \<comment> \<open>\<open>std::pow(static_cast<int32_t>(Rad), static_cast<int32_t>(scale))\<close>\<close>
  "std_pow pw Rad scale = pw (radix_val Rad) (sint scale)"

text \<open>
  One such function, the correctly rounded power. The examples below are evaluated
  with it, and only where the result does not depend on how a library rounds: at
  powers that are small integers, and at exponents so large in magnitude that the
  power overflows to infinity or underflows to zero.
\<close>

definition pow_rounded :: pow_fn where
  "pow_rounded b e = round_double (of_int b powi e)"

definition right_shift :: "pow_fn \<Rightarrow> Radix \<Rightarrow> double \<Rightarrow> scale_type \<Rightarrow> double" where
  "right_shift pw Rad val scale = fdiv val (std_pow pw Rad scale)"

definition left_shift :: "pow_fn \<Rightarrow> Radix \<Rightarrow> double \<Rightarrow> scale_type \<Rightarrow> double" where
  "left_shift pw Rad val scale = fmul val (std_pow pw Rad scale)"

definition shift :: "pow_fn \<Rightarrow> Radix \<Rightarrow> double \<Rightarrow> scale_type \<Rightarrow> double" where
  "shift pw Rad val scale =
     (if 0 \<le>s scale then right_shift pw Rad val scale
      else left_shift pw Rad val (negate scale))"

section \<open>Integer arithmetic of the representation type\<close>

text \<open>
  The unscaled value is a signed \<open>Rep\<close> of 8, 16, 32 or 64 bits, a \<open>'a word\<close> read
  with \<open>sint\<close>; a scale is an \<open>int32_t\<close>. Where the unchecked C++ \<open>+\<close>, \<open>-\<close> or \<open>*\<close>
  would leave the type's range the model wraps around in two's complement (the
  word operations).

  \<open>/\<close> truncates toward zero, and it has no result for a zero divisor. Nor has
  \<open>MIN / -1\<close> one for \<open>int32_t\<close> and \<open>int64_t\<close>, where the quotient overflows the type
  the division is carried out in. Operands narrower than \<open>int\<close> are promoted to
  \<open>int\<close> first: there \<open>MIN / -1\<close> is the integer \<open>- MIN\<close>, which wraps around when it
  is stored back in \<open>Rep\<close>.
\<close>

definition limits_min :: "'a::len word" where
  "limits_min = word_of_int (rep_min TYPE('a))"

definition limits_max :: "'a::len word" where
  "limits_max = word_of_int (rep_max TYPE('a))"

definition rep_div :: "'a::len word \<Rightarrow> 'a word \<Rightarrow> 'a word option" where
  "rep_div a b =
     (if b = 0 then None
      else if 32 \<le> LENGTH('a) \<and> a = limits_min \<and> b = - 1 then None
      else Some (word_of_int (sint a sdiv sint b)))"

section \<open>Outcomes\<close>

datatype error = Overflow string

text \<open>
  An operation returns a value, fails through \<open>CUDF_FAIL\<close>, or runs into an
  operation for which C++ defines no result (a \<open>double\<close> that does not fit the
  integer type it is converted to, an integer division by zero or of \<open>MIN\<close> by
  \<open>-1\<close>).
\<close>

datatype 'a outcome = Returns 'a | Raises error | Undefined

definition bind :: "'a outcome \<Rightarrow> ('a \<Rightarrow> 'b outcome) \<Rightarrow> 'b outcome" where
  "bind m f = (case m of Returns x \<Rightarrow> f x | Raises e \<Rightarrow> Raises e | Undefined \<Rightarrow> Undefined)"

definition defined :: "'a option \<Rightarrow> 'a outcome" where
  "defined m = (case m of Some x \<Rightarrow> Returns x | None \<Rightarrow> Undefined)"

section \<open>The value type\<close>

record 'rep scaled_integer =
  si_value :: 'rep
  si_scale :: scale_type

record 'rep fixed_point =
  fp_scale :: scale_type
  fp_value :: 'rep

text \<open>
  The constructor from a native number and a scale, for a \<open>double\<close> and for an
  integer of any width (the integer is converted to \<open>double\<close> by the division or
  multiplication inside \<open>shift\<close>); the shifted \<open>double\<close> initialises \<open>_value\<close>.
\<close>

definition fixed_point_double ::
  "pow_fn \<Rightarrow> Radix \<Rightarrow> double \<Rightarrow> scale_type \<Rightarrow> 'a::len word fixed_point outcome" where
  "fixed_point_double pw Rad val scale =
     bind (defined (double_to_rep (shift pw Rad val scale)))
       (\<lambda>v. Returns \<lparr>fp_scale = scale, fp_value = v\<rparr>)"

definition fixed_point_native ::
  "pow_fn \<Rightarrow> Radix \<Rightarrow> 't::len word \<Rightarrow> scale_type \<Rightarrow> 'a::len word fixed_point outcome" where
  "fixed_point_native pw Rad val scale = fixed_point_double pw Rad (rep_to_double val) scale"

definition fixed_point_scaled :: "'rep scaled_integer \<Rightarrow> 'rep fixed_point" where
  "fixed_point_scaled s = \<lparr>fp_scale = si_scale s, fp_value = si_value s\<rparr>"

text \<open>The explicit conversion operator, to \<open>double\<close> and to an integer type \<open>U\<close>.\<close>

definition to_double :: "pow_fn \<Rightarrow> Radix \<Rightarrow> 'a::len word fixed_point \<Rightarrow> double" where
  "to_double pw Rad x = shift pw Rad (rep_to_double (fp_value x)) (negate (fp_scale x))"

definition to_integer ::
  "pow_fn \<Rightarrow> Radix \<Rightarrow> 'a::len word fixed_point \<Rightarrow> 'u::len word outcome" where
  "to_integer pw Rad x =
     defined (double_to_rep
       (shift pw Rad (rep_to_double (scast (fp_value x) :: 'u word)) (negate (fp_scale x))))"




section \<open>Overflow predicates\<close>

definition print_rep :: "'a::len itself \<Rightarrow> string" where
  "print_rep _ =
     (if LENGTH('a) = 8 then ''int8_t''
      else if LENGTH('a) = 16 then ''int16_t''
      else if LENGTH('a) = 32 then ''int32_t''
      else if LENGTH('a) = 64 then ''int64_t''
      else ''unknown type'')"

definition overflow_error :: "'a::len itself \<Rightarrow> error" where
  "overflow_error t =
     Overflow (''fixed_point overflow of underlying represenation type '' @ print_rep t)"

text \<open>The predicates at \<open>T = Rep\<close>: operands of the representation type.\<close>

definition addition_overflow :: "'a::len word \<Rightarrow> 'a word \<Rightarrow> bool" where
  "addition_overflow lhs rhs =
     (if 0 <s rhs then limits_max - rhs <s lhs else lhs <s limits_min - rhs)"

definition subtraction_overflow :: "'a::len word \<Rightarrow> 'a word \<Rightarrow> bool" where
  "subtraction_overflow lhs rhs =
     (if 0 <s rhs then lhs <s limits_min + rhs else limits_max + rhs <s lhs)"

definition division_overflow :: "'a::len word \<Rightarrow> 'a word \<Rightarrow> bool" where
  "division_overflow lhs rhs = (lhs = limits_min \<and> rhs = - 1)"

text \<open>
  In \<open>multiplication_overflow\<close> every quotient has a divisor that is positive or
  below \<open>-1\<close>, so it is the integer quotient, truncated toward zero.
\<close>

definition multiplication_overflow :: "'a::len word \<Rightarrow> 'a word \<Rightarrow> bool" where
  "multiplication_overflow lhs rhs =
     (let min = rep_min TYPE('a); max = rep_max TYPE('a)
      in if 0 <s rhs then max sdiv sint rhs < sint lhs \<or> sint lhs < min sdiv sint rhs
         else if rhs <s - 1 then min sdiv sint rhs < sint lhs \<or> sint lhs < max sdiv sint rhs
         else rhs = - 1 \<and> sint lhs = min)"

text \<open>
  The predicates at \<open>T = double\<close>, as \<open>operator+\<close> and \<open>operator-\<close> call them: there
  \<open>lhsv\<close> and \<open>rhsv\<close> are results of a conditional expression one arm of which is
  a \<open>shift\<close>, hence \<open>double\<close>.
\<close>

definition addition_overflow_double :: "'a::len itself \<Rightarrow> double \<Rightarrow> double \<Rightarrow> bool" where
  "addition_overflow_double t lhs rhs =
     (if fless (Finite 0) rhs then fless (fsub (int_to_double (rep_max t)) rhs) lhs
      else fless lhs (fsub (int_to_double (rep_min t)) rhs))"

definition subtraction_overflow_double :: "'a::len itself \<Rightarrow> double \<Rightarrow> double \<Rightarrow> bool" where
  "subtraction_overflow_double t lhs rhs =
     (if fless (Finite 0) rhs then fless lhs (fadd (int_to_double (rep_min t)) rhs)
      else fless (fadd (int_to_double (rep_max t)) rhs) lhs)"

section \<open>Binary operators\<close>

text \<open>
  The first argument of each operator says whether \<open>__CUDACC_DEBUG__\<close> is defined,
  that is, whether the overflow check is compiled in.
\<close>

definition plus ::
  "bool \<Rightarrow> pow_fn \<Rightarrow> Radix \<Rightarrow> 'a::len word fixed_point \<Rightarrow> 'a word fixed_point \<Rightarrow>
     'a word fixed_point outcome"
  where
  "plus dbg pw Rad lhs rhs =
     (let rhsv = (if fp_scale rhs <s fp_scale lhs
                  then shift pw Rad (rep_to_double (fp_value rhs)) (fp_scale lhs - fp_scale rhs)
                  else rep_to_double (fp_value rhs));
          lhsv = (if fp_scale lhs <s fp_scale rhs
                  then shift pw Rad (rep_to_double (fp_value lhs)) (fp_scale rhs - fp_scale lhs)
                  else rep_to_double (fp_value lhs));
          scale = (if fp_scale rhs <s fp_scale lhs then fp_scale lhs else fp_scale rhs)
      in if dbg \<and> addition_overflow_double TYPE('a) lhsv rhsv
         then Raises (overflow_error TYPE('a))
         else bind (defined (double_to_rep (fadd lhsv rhsv)))
                (\<lambda>v. Returns (fixed_point_scaled \<lparr>si_value = v, si_scale = scale\<rparr>)))"

definition minus ::
  "bool \<Rightarrow> pow_fn \<Rightarrow> Radix \<Rightarrow> 'a::len word fixed_point \<Rightarrow> 'a word fixed_point \<Rightarrow>
     'a word fixed_point outcome"
  where
  "minus dbg pw Rad lhs rhs =
     (let rhsv = (if fp_scale rhs <s fp_scale lhs
                  then shift pw Rad (rep_to_double (fp_value rhs)) (fp_scale lhs - fp_scale rhs)
                  else rep_to_double (fp_value rhs));
          lhsv = (if fp_scale lhs <s fp_scale rhs
                  then shift pw Rad (rep_to_double (fp_value lhs)) (fp_scale rhs - fp_scale lhs)
                  else rep_to_double (fp_value lhs));
          scale = (if fp_scale rhs <s fp_scale lhs then fp_scale lhs else fp_scale rhs)
      in if dbg \<and> subtraction_overflow_double TYPE('a) lhsv rhsv
         then Raises (overflow_error TYPE('a))
         else bind (defined (double_to_rep (fsub lhsv rhsv)))
                (\<lambda>v. Returns (fixed_point_scaled \<lparr>si_value = v, si_scale = scale\<rparr>)))"

definition times ::
  "bool \<Rightarrow> 'a::len word fixed_point \<Rightarrow> 'a word fixed_point \<Rightarrow> 'a word fixed_point outcome"
  where
  "times dbg lhs rhs =
     (if dbg \<and> multiplication_overflow (fp_value lhs) (fp_value rhs)
      then Raises (overflow_error TYPE('a))
      else Returns (fixed_point_scaled
             \<lparr>si_value = fp_value lhs * fp_value rhs,
              si_scale = fp_scale lhs + fp_scale rhs\<rparr>))"

definition divide ::
  "bool \<Rightarrow> 'a::len word fixed_point \<Rightarrow> 'a word fixed_point \<Rightarrow> 'a word fixed_point outcome"
  where
  "divide dbg lhs rhs =
     (if dbg \<and> division_overflow (fp_value lhs) (fp_value rhs)
      then Raises (overflow_error TYPE('a))
      else bind (defined (rep_div (fp_value lhs) (fp_value rhs)))
             (\<lambda>q. Returns (fixed_point_scaled
                    \<lparr>si_value = q, si_scale = fp_scale lhs - fp_scale rhs\<rparr>)))"

section \<open>Compound assignment\<close>

text \<open>
  \<open>x op= y\<close> assigns to the object \<open>*this\<close> and returns a reference to it, and
  \<open>rhs\<close> is a reference that may name the same object. Objects therefore live in
  a store, and the operators take and return addresses.
\<close>

type_synonym addr = nat
type_synonym 'rep store = "addr \<Rightarrow> 'rep fixed_point"

definition plus_assign ::
  "bool \<Rightarrow> pow_fn \<Rightarrow> Radix \<Rightarrow> 'a::len word store \<Rightarrow> addr \<Rightarrow> addr \<Rightarrow>
     ('a word store \<times> addr) outcome"
  where
  "plus_assign dbg pw Rad st this rhs =
     bind (plus dbg pw Rad (st this) (st rhs)) (\<lambda>r. Returns (st(this := r), this))"

definition times_assign ::
  "bool \<Rightarrow> 'a::len word store \<Rightarrow> addr \<Rightarrow> addr \<Rightarrow> ('a word store \<times> addr) outcome"
  where
  "times_assign dbg st this rhs =
     bind (times dbg (st this) (st rhs)) (\<lambda>r. Returns (st(this := r), this))"

definition minus_assign ::
  "bool \<Rightarrow> pow_fn \<Rightarrow> Radix \<Rightarrow> 'a::len word store \<Rightarrow> addr \<Rightarrow> addr \<Rightarrow>
     ('a word store \<times> addr) outcome"
  where
  "minus_assign dbg pw Rad st this rhs =
     bind (minus dbg pw Rad (st this) (st rhs)) (\<lambda>r. Returns (st(this := r), this))"

definition divide_assign ::
  "bool \<Rightarrow> 'a::len word store \<Rightarrow> addr \<Rightarrow> addr \<Rightarrow> ('a word store \<times> addr) outcome"
  where
  "divide_assign dbg st this rhs =
     bind (divide dbg (st this) (st rhs)) (\<lambda>r. Returns (st(this := r), this))"

section \<open>Ranges\<close>

definition in_range :: "'a::len itself \<Rightarrow> int \<Rightarrow> bool" where
  "in_range t n = (rep_min t \<le> n \<and> n \<le> rep_max t)"

section \<open>Signed words and truncating division\<close>

lemma sint_in_range: "in_range TYPE('a) (sint (w :: 'a::len word))"
  using sint_ge [of w] sint_lt [of w]
  by (simp add: in_range_def rep_min_def rep_max_def)

lemma sint_word_of_int_in_range:
  "in_range TYPE('a::len) n \<Longrightarrow> sint (word_of_int n :: 'a word) = n"
  unfolding in_range_def rep_min_def rep_max_def
  by (simp add: sint_sbintrunc' signed_take_bit_int_eq_self)

lemma le_div_iff_int:
  fixes a b c :: int
  assumes "0 < b"
  shows "a \<le> c div b \<longleftrightarrow> a * b \<le> c"
proof
  assume "a \<le> c div b"
  then have "a * b \<le> (c div b) * b"
    using assms by (simp add: mult_right_mono)
  also have "\<dots> \<le> c"
    using assms by (metis div_mult_mod_eq le_add_same_cancel1 pos_mod_sign)
  finally show "a * b \<le> c" .
next
  assume "a * b \<le> c"
  then have "(a * b) div b \<le> c div b"
    using assms by (rule zdiv_mono1)
  then show "a \<le> c div b"
    using assms by simp
qed

lemma div_less_iff_int:
  fixes a b c :: int
  assumes "0 < b"
  shows "c div b < a \<longleftrightarrow> c < a * b"
  using le_div_iff_int [OF assms, of a c] by linarith

lemma neg_div_less_iff_int:
  fixes a b c :: int
  assumes "0 < b"
  shows "a < - (c div b) \<longleftrightarrow> a * b < - c"
proof -
  have "a < - (c div b) \<longleftrightarrow> c div b < - a" by linarith
  also have "\<dots> \<longleftrightarrow> c < (- a) * b" by (rule div_less_iff_int [OF assms])
  also have "\<dots> \<longleftrightarrow> a * b < - c" by (simp, linarith)
  finally show ?thesis .
qed

lemma sdiv_pos_pos: "0 \<le> (k::int) \<Longrightarrow> 0 < l \<Longrightarrow> k sdiv l = k div l"
  by (simp add: signed_divide_int_def sgn_if)

lemma sdiv_neg_pos: "(k::int) \<le> 0 \<Longrightarrow> 0 < l \<Longrightarrow> k sdiv l = - ((- k) div l)"
  by (simp add: signed_divide_int_def sgn_if)

lemma sdiv_pos_neg: "0 \<le> (k::int) \<Longrightarrow> l < 0 \<Longrightarrow> k sdiv l = - (k div (- l))"
  by (simp add: signed_divide_int_def sgn_if)

lemma sdiv_neg_neg: "(k::int) \<le> 0 \<Longrightarrow> l < 0 \<Longrightarrow> k sdiv l = (- k) div (- l)"
  by (simp add: signed_divide_int_def sgn_if)

lemma mul_overflow_int:
  fixes a b M :: int
  assumes M: "0 < M" and a: "- M \<le> a" "a < M" and b: "- M \<le> b" "b < M"
  shows "(if 0 < b then (M - 1) sdiv b < a \<or> a < (- M) sdiv b
          else if b < - 1 then (- M) sdiv b < a \<or> a < (M - 1) sdiv b
          else b = - 1 \<and> a = - M)
         \<longleftrightarrow> \<not> (- M \<le> a * b \<and> a * b \<le> M - 1)"
proof -
  consider "0 < b" | "b < - 1" | "b = 0" | "b = - 1" by linarith
  then show ?thesis
  proof cases
    case 1
    have "(M - 1) sdiv b = (M - 1) div b" using 1 M sdiv_pos_pos [of "M - 1" b] by simp
    moreover have "(- M) sdiv b = - (M div b)" using 1 M sdiv_neg_pos [of "- M" b] by simp
    moreover have "(M - 1) div b < a \<longleftrightarrow> M - 1 < a * b" by (rule div_less_iff_int [OF 1])
    moreover have "a < - (M div b) \<longleftrightarrow> a * b < - M" by (rule neg_div_less_iff_int [OF 1])
    ultimately show ?thesis using 1 by auto
  next
    case 2
    then have nb: "0 < - b" by simp
    have "(M - 1) sdiv b = - ((M - 1) div (- b))" using 2 M sdiv_pos_neg [of "M - 1" b] by simp
    moreover have "(- M) sdiv b = M div (- b)" using 2 M sdiv_neg_neg [of "- M" b] by simp
    moreover have "M div (- b) < a \<longleftrightarrow> M < a * (- b)" by (rule div_less_iff_int [OF nb])
    moreover have "a < - ((M - 1) div (- b)) \<longleftrightarrow> a * (- b) < - (M - 1)"
      by (rule neg_div_less_iff_int [OF nb])
    ultimately show ?thesis using 2 by auto
  next
    case 3
    then show ?thesis using M by simp
  next
    case 4
    then show ?thesis using a by auto
  qed
qed

lemma rep_limits_bounds: "rep_min TYPE('a::len) < 0" "0 \<le> rep_max TYPE('a::len)"
  "rep_max TYPE('a::len) = - rep_min TYPE('a) - 1"
  by (simp_all add: rep_min_def rep_max_def)

lemma sint_limits_min: "sint (limits_min :: 'a::len word) = rep_min TYPE('a)"
  unfolding limits_min_def
  by (rule sint_word_of_int_in_range) (simp add: in_range_def rep_min_def rep_max_def)

lemma sint_limits_max: "sint (limits_max :: 'a::len word) = rep_max TYPE('a)"
  unfolding limits_max_def
  by (rule sint_word_of_int_in_range) (simp add: in_range_def rep_min_def rep_max_def)

lemma sint_diff_in_range:
  fixes a b :: "'a::len word"
  shows "in_range TYPE('a) (sint a - sint b) \<Longrightarrow> sint (a - b) = sint a - sint b"
  unfolding in_range_def rep_min_def rep_max_def
  by (simp add: sint_word_diff signed_take_bit_int_eq_self)

lemma sint_add_in_range:
  fixes a b :: "'a::len word"
  shows "in_range TYPE('a) (sint a + sint b) \<Longrightarrow> sint (a + b) = sint a + sint b"
  unfolding in_range_def rep_min_def rep_max_def
  by (simp add: sint_word_add signed_take_bit_int_eq_self)

lemma sint_mult_in_range:
  fixes a b :: "'a::len word"
  shows "in_range TYPE('a) (sint a * sint b) \<Longrightarrow> sint (a * b) = sint a * sint b"
  unfolding in_range_def rep_min_def rep_max_def
  by (simp add: sint_word_mult signed_take_bit_int_eq_self)

lemma addition_overflow_exact:
  fixes lhs rhs :: "'a::len word"
  shows "addition_overflow lhs rhs \<longleftrightarrow> \<not> in_range TYPE('a) (sint lhs + sint rhs)"
proof (cases "0 < sint rhs")
  case True
  have "in_range TYPE('a) (sint (limits_max :: 'a word) - sint rhs)"
    using True sint_in_range [of rhs] rep_limits_bounds [where 'a = 'a]
    by (simp add: in_range_def sint_limits_max)
  then have "sint (limits_max - rhs) = rep_max TYPE('a) - sint rhs"
    by (simp add: sint_diff_in_range sint_limits_max)
  then show ?thesis
    using True sint_in_range [of lhs] sint_in_range [of rhs]
    by (auto simp: addition_overflow_def word_sless_alt in_range_def)
next
  case False
  have "in_range TYPE('a) (sint (limits_min :: 'a word) - sint rhs)"
    using False sint_in_range [of rhs] rep_limits_bounds [where 'a = 'a]
    by (simp add: in_range_def sint_limits_min)
  then have "sint (limits_min - rhs) = rep_min TYPE('a) - sint rhs"
    by (simp add: sint_diff_in_range sint_limits_min)
  then show ?thesis
    using False sint_in_range [of lhs] sint_in_range [of rhs]
    by (auto simp: addition_overflow_def word_sless_alt in_range_def)
qed

lemma subtraction_overflow_exact:
  fixes lhs rhs :: "'a::len word"
  shows "subtraction_overflow lhs rhs \<longleftrightarrow> \<not> in_range TYPE('a) (sint lhs - sint rhs)"
proof (cases "0 < sint rhs")
  case True
  have "in_range TYPE('a) (sint (limits_min :: 'a word) + sint rhs)"
    using True sint_in_range [of rhs] rep_limits_bounds [where 'a = 'a]
    by (simp add: in_range_def sint_limits_min)
  then have "sint (limits_min + rhs) = rep_min TYPE('a) + sint rhs"
    by (simp add: sint_add_in_range sint_limits_min)
  then show ?thesis
    using True sint_in_range [of lhs] sint_in_range [of rhs]
    by (auto simp: subtraction_overflow_def word_sless_alt in_range_def)
next
  case False
  have "in_range TYPE('a) (sint (limits_max :: 'a word) + sint rhs)"
    using False sint_in_range [of rhs] rep_limits_bounds [where 'a = 'a]
    by (simp add: in_range_def sint_limits_max)
  then have "sint (limits_max + rhs) = rep_max TYPE('a) + sint rhs"
    by (simp add: sint_add_in_range sint_limits_max)
  then show ?thesis
    using False sint_in_range [of lhs] sint_in_range [of rhs]
    by (auto simp: subtraction_overflow_def word_sless_alt in_range_def)
qed

lemma abs_sdiv_int: "\<bar>k sdiv l\<bar> = \<bar>k\<bar> div \<bar>l\<bar>" for k l :: int
proof -
  have "0 \<le> \<bar>k\<bar> div \<bar>l\<bar>"
    by (cases "l = 0") (simp_all add: pos_imp_zdiv_nonneg_iff)
  then show ?thesis
    by (cases "k = 0"; cases "l = 0") (simp_all add: signed_divide_int_def abs_mult)
qed

lemma sdiv_in_range:
  assumes a: "in_range TYPE('a::len) a" and nz: "b \<noteq> 0"
    and nov: "\<not> (a = rep_min TYPE('a) \<and> b = - 1)"
  shows "in_range TYPE('a) (a sdiv b)"
proof -
  let ?M = "- rep_min TYPE('a)"
  have M: "0 < ?M" "rep_max TYPE('a) = ?M - 1"
    using rep_limits_bounds [where 'a = 'a] by simp_all
  have ab: "\<bar>a\<bar> \<le> ?M" using a M by (auto simp: in_range_def)
  have le: "\<bar>a sdiv b\<bar> \<le> \<bar>a\<bar>"
  proof -
    have "\<bar>a\<bar> div \<bar>b\<bar> \<le> \<bar>a\<bar> div 1"
      using nz by (intro zdiv_mono2) auto
    then show ?thesis by (simp add: abs_sdiv_int)
  qed
  show ?thesis
  proof (cases "\<bar>a\<bar> < ?M")
    case True
    then show ?thesis using le M by (auto simp: in_range_def)
  next
    case False
    then have aeq: "a = rep_min TYPE('a)" using ab a M by (auto simp: in_range_def)
    consider "b = 1" | "2 \<le> \<bar>b\<bar>" using nz nov aeq by fastforce
    then show ?thesis
    proof cases
      case 1
      then have "a sdiv b = a" by (simp add: signed_divide_int_def mult_sgn_abs)
      then show ?thesis using a by simp
    next
      case 2
      have "\<bar>a\<bar> div \<bar>b\<bar> \<le> \<bar>a\<bar> div 2"
        using 2 by (intro zdiv_mono2) auto
      also have "\<dots> < ?M" using ab M by linarith
      finally have "\<bar>a sdiv b\<bar> < ?M" by (simp add: abs_sdiv_int)
      then show ?thesis using M by (auto simp: in_range_def)
    qed
  qed
qed

lemma sint_eq_iff_word: "a = b \<longleftrightarrow> sint a = sint b" for a b :: "'a::len word"
  by (auto intro: signed_word_eqI)

lemma multiplication_overflow_exact:
  fixes lhs rhs :: "'a::len word"
  shows "multiplication_overflow lhs rhs \<longleftrightarrow> \<not> in_range TYPE('a) (sint lhs * sint rhs)"
proof -
  define M where "M = - rep_min TYPE('a)"
  let ?a = "sint lhs" and ?b = "sint rhs"
  have M: "0 < M" "rep_max TYPE('a) = M - 1" "rep_min TYPE('a) = - M"
    using rep_limits_bounds [where 'a = 'a] by (simp_all add: M_def)
  have ra: "- M \<le> ?a" "?a < M" and rb: "- M \<le> ?b" "?b < M"
    using sint_in_range [of lhs] sint_in_range [of rhs] M by (auto simp: in_range_def)
  have "multiplication_overflow lhs rhs \<longleftrightarrow>
        (if 0 < ?b then (M - 1) sdiv ?b < ?a \<or> ?a < (- M) sdiv ?b
         else if ?b < - 1 then (- M) sdiv ?b < ?a \<or> ?a < (M - 1) sdiv ?b
         else ?b = - 1 \<and> ?a = - M)"
    by (simp add: multiplication_overflow_def Let_def word_sless_alt M(2,3)
        sint_eq_iff_word [of rhs])
  also have "\<dots> \<longleftrightarrow> \<not> (- M \<le> ?a * ?b \<and> ?a * ?b \<le> M - 1)"
    by (rule mul_overflow_int [OF M(1) ra rb])
  finally show ?thesis using M by (simp add: in_range_def)
qed

lemma division_overflow_exact:
  fixes lhs rhs :: "'a::len word"
  assumes "rhs \<noteq> 0"
  shows "division_overflow lhs rhs \<longleftrightarrow> \<not> in_range TYPE('a) (sint lhs sdiv sint rhs)"
proof (cases "lhs = limits_min \<and> rhs = - 1")
  case True
  then have "sint lhs sdiv sint rhs = - rep_min TYPE('a)"
    by (simp add: sint_limits_min signed_divide_int_def sgn_if)
  then show ?thesis
    using True rep_limits_bounds [where 'a = 'a]
    by (simp add: division_overflow_def in_range_def)
next
  case False
  have "sint rhs \<noteq> 0" using assms by (simp add: sint_eq_iff_word [of rhs])
  moreover have "\<not> (sint lhs = rep_min TYPE('a) \<and> sint rhs = - 1)"
    using False by (simp add: sint_eq_iff_word [of rhs] sint_eq_iff_word [of lhs] sint_limits_min)
  ultimately have "in_range TYPE('a) (sint lhs sdiv sint rhs)"
    using sint_in_range [of lhs] by (intro sdiv_in_range)
  then show ?thesis using False by (simp add: division_overflow_def)
qed

lemma rep_div_Some:
  fixes a b :: "'a::len word"
  assumes "b \<noteq> 0" and "\<not> division_overflow a b"
  shows "rep_div a b = Some (word_of_int (sint a sdiv sint b))"
    and "sint (word_of_int (sint a sdiv sint b) :: 'a word) = sint a sdiv sint b"
proof -
  show "rep_div a b = Some (word_of_int (sint a sdiv sint b))"
    using assms by (auto simp: rep_div_def division_overflow_def)
  have "in_range TYPE('a) (sint a sdiv sint b)"
    using assms by (simp add: division_overflow_exact)
  then show "sint (word_of_int (sint a sdiv sint b) :: 'a word) = sint a sdiv sint b"
    by (rule sint_word_of_int_in_range)
qed

lemma rep_div_zero: "rep_div a 0 = None"
  by (simp add: rep_div_def)

lemma rep_div_min_wide:
  "32 \<le> LENGTH('a::len) \<Longrightarrow> rep_div (limits_min :: 'a word) (- 1) = None"
  by (simp add: rep_div_def)

lemma limits_min_self_inverse: "- (limits_min :: 'a::len word) = limits_min"
proof -
  have "(2 :: 'a word) ^ LENGTH('a) = 0" by simp
  moreover have "(2 :: 'a word) ^ LENGTH('a) = 2 ^ (LENGTH('a) - 1) + 2 ^ (LENGTH('a) - 1)"
  proof -
    have "LENGTH('a) = Suc (LENGTH('a) - 1)" by simp
    then have "(2 :: 'a word) ^ LENGTH('a) = 2 * 2 ^ (LENGTH('a) - 1)"
      by (metis power_Suc)
    then show ?thesis by simp
  qed
  ultimately have "(2 :: 'a word) ^ (LENGTH('a) - 1) + 2 ^ (LENGTH('a) - 1) = 0" by simp
  then have "(2 :: 'a word) ^ (LENGTH('a) - 1) = - (2 ^ (LENGTH('a) - 1))"
    by (rule eq_neg_iff_add_eq_0 [THEN iffD2])
  then show ?thesis
    by (simp add: limits_min_def rep_min_def)
qed

lemma rep_div_min_narrow:
  assumes "LENGTH('a::len) < 32"
  shows "rep_div (limits_min :: 'a word) (- 1) = Some limits_min"
proof -
  have "sint (limits_min :: 'a word) sdiv sint (- 1 :: 'a word) = - rep_min TYPE('a)"
    using rep_limits_bounds(1) [where 'a = 'a]
    by (simp add: sint_limits_min signed_divide_int_def)
  moreover have "(word_of_int (- rep_min TYPE('a)) :: 'a word) = limits_min"
    using limits_min_self_inverse [where 'a = 'a] by (simp add: limits_min_def)
  ultimately show ?thesis
    using assms by (simp add: rep_div_def)
qed

lemma sint_one_word: "1 < LENGTH('a::len) \<Longrightarrow> sint (1 :: 'a word) = 1"
  by (cases "LENGTH('a)") (auto simp: sint_word_01 gr0_conv_Suc)

lemma rep_limits_strict: "1 < LENGTH('a::len) \<Longrightarrow> rep_min TYPE('a) < - 1"
  "1 < LENGTH('a::len) \<Longrightarrow> 0 < rep_max TYPE('a)"
proof -
  assume "1 < LENGTH('a)"
  then have "(2::int) ^ 1 \<le> 2 ^ (LENGTH('a) - 1)"
    by (intro power_increasing) auto
  then show "rep_min TYPE('a) < - 1" "0 < rep_max TYPE('a)"
    by (simp_all add: rep_min_def rep_max_def)
qed

section \<open>The overflow predicates are exact\<close>

text \<open>
  C5. On operands of the representation type, each of the four predicates is true
  exactly when the integer result of the operation lies outside
  \<open>[rep_min, rep_max]\<close> (for the quotient: whenever there is one, that is, for
  a divisor other than zero). At the boundary: \<open>addition_overflow(MAX, 1)\<close>,
  \<open>multiplication_overflow(MIN, -1)\<close> and \<open>division_overflow(MIN, -1)\<close> hold,
  \<open>addition_overflow(MAX, 0)\<close>, \<open>multiplication_overflow(MIN, 1)\<close> and
  \<open>division_overflow(MIN, 1)\<close> do not. The representation has at least two bits
  (the supported ones have 8, 16, 32 or 64).
\<close>

theorem overflow_predicates_exact:
  fixes lhs rhs :: "'a::len word"
  assumes len: "1 < LENGTH('a)"
  shows "(addition_overflow lhs rhs \<longleftrightarrow> \<not> in_range TYPE('a) (sint lhs + sint rhs)) \<and>
         (subtraction_overflow lhs rhs \<longleftrightarrow> \<not> in_range TYPE('a) (sint lhs - sint rhs)) \<and>
         (multiplication_overflow lhs rhs \<longleftrightarrow> \<not> in_range TYPE('a) (sint lhs * sint rhs)) \<and>
         (rhs \<noteq> 0 \<longrightarrow>
            (division_overflow lhs rhs \<longleftrightarrow> \<not> in_range TYPE('a) (sint lhs sdiv sint rhs))) \<and>
         addition_overflow (limits_max :: 'a word) 1 \<and>
         \<not> addition_overflow (limits_max :: 'a word) 0 \<and>
         multiplication_overflow (limits_min :: 'a word) (- 1) \<and>
         \<not> multiplication_overflow (limits_min :: 'a word) 1 \<and>
         division_overflow (limits_min :: 'a word) (- 1) \<and>
         \<not> division_overflow (limits_min :: 'a word) 1"
proof -
  note lim = rep_limits_bounds [where 'a = 'a] rep_limits_strict [OF len] len
  have one: "sint (1 :: 'a word) = 1" by (rule sint_one_word [OF len])
  have b1: "addition_overflow (limits_max :: 'a word) 1"
    using lim by (simp add: addition_overflow_exact sint_limits_max one in_range_def)
  have b2: "\<not> addition_overflow (limits_max :: 'a word) 0"
    using lim by (simp add: addition_overflow_exact sint_limits_max in_range_def)
  have b3: "multiplication_overflow (limits_min :: 'a word) (- 1)"
    using lim by (simp add: multiplication_overflow_exact sint_limits_min in_range_def)
  have b4: "\<not> multiplication_overflow (limits_min :: 'a word) 1"
    using lim by (simp add: multiplication_overflow_exact sint_limits_min one in_range_def)
  have b5: "division_overflow (limits_min :: 'a word) (- 1)"
    by (simp add: division_overflow_def)
  have "sint (1 :: 'a word) \<noteq> sint (- 1 :: 'a word)" using len by (simp add: one)
  then have "(1 :: 'a word) \<noteq> - 1" by (simp add: sint_eq_iff_word [of "1 :: 'a word"])
  then have b6: "\<not> division_overflow (limits_min :: 'a word) 1"
    by (simp add: division_overflow_def)
  show ?thesis
    using addition_overflow_exact [of lhs rhs] subtraction_overflow_exact [of lhs rhs]
      multiplication_overflow_exact [of lhs rhs] division_overflow_exact [of rhs lhs]
      b1 b2 b3 b4 b5 b6
    by blast
qed

theorem overflow_predicates_exact_witness:
  "1 < LENGTH(32) \<and> (- 1 :: 32 word) \<noteq> 0 \<and>
   division_overflow (limits_min :: 32 word) (- 1) \<and>
   \<not> in_range TYPE(32) (sint (limits_min :: 32 word) sdiv sint (- 1 :: 32 word)) \<and>
   addition_overflow (limits_max :: 32 word) 1 \<and>
   \<not> addition_overflow (limits_max :: 32 word) 0 \<and>
   multiplication_overflow (limits_min :: 32 word) (- 1) \<and>
   \<not> multiplication_overflow (limits_min :: 32 word) 1 \<and>
   \<not> division_overflow (limits_min :: 32 word) 1"
proof -
  have len: "1 < LENGTH(32)" by simp
  have nz: "(- 1 :: 32 word) \<noteq> 0" by simp
  from len nz overflow_predicates_exact [where 'a = 32 and lhs = limits_min and rhs = "- 1", OF len]
  show ?thesis by blast
qed

section \<open>Multiplication and division\<close>

text \<open>
  C6. Multiplication aligns nothing: unless the compiled-in check fails it, the
  result's unscaled value is the product of the operands' unscaled values (the
  exact integer product whenever that fits the representation) and its scale is
  the sum of their scales.
\<close>

theorem times_no_alignment:
  fixes lhs rhs :: "'a::len word fixed_point"
  shows "(dbg \<and> multiplication_overflow (fp_value lhs) (fp_value rhs) \<longrightarrow>
            times dbg lhs rhs = Raises (overflow_error TYPE('a))) \<and>
         (\<not> (dbg \<and> multiplication_overflow (fp_value lhs) (fp_value rhs)) \<longrightarrow>
            (\<exists>r. times dbg lhs rhs = Returns r \<and>
                 fp_value r = fp_value lhs * fp_value rhs \<and>
                 fp_scale r = fp_scale lhs + fp_scale rhs \<and>
                 (\<not> multiplication_overflow (fp_value lhs) (fp_value rhs) \<longrightarrow>
                    sint (fp_value r) = sint (fp_value lhs) * sint (fp_value rhs))))"
proof -
  have "sint (fp_value lhs * fp_value rhs) = sint (fp_value lhs) * sint (fp_value rhs)"
    if "\<not> multiplication_overflow (fp_value lhs) (fp_value rhs)"
    using that by (simp add: multiplication_overflow_exact sint_mult_in_range)
  then show ?thesis
    by (auto simp: times_def fixed_point_scaled_def)
qed

theorem times_no_alignment_witness:
  "\<not> multiplication_overflow (3 :: 32 word) 4 \<and>
   (\<exists>r. times True \<lparr>fp_scale = 1, fp_value = 3 :: 32 word\<rparr> \<lparr>fp_scale = 2, fp_value = 4\<rparr>
          = Returns r \<and>
        fp_value r = 12 \<and> fp_scale r = 3 \<and> sint (fp_value r) = 12) \<and>
   multiplication_overflow (limits_min :: 32 word) (- 1) \<and>
   times True \<lparr>fp_scale = 0, fp_value = limits_min :: 32 word\<rparr> \<lparr>fp_scale = 0, fp_value = - 1\<rparr>
     = Raises (overflow_error TYPE(32))"
proof -
  have n: "\<not> multiplication_overflow (3 :: 32 word) 4"
    by (simp add: multiplication_overflow_exact in_range_def rep_min_def rep_max_def)
  have o: "multiplication_overflow (limits_min :: 32 word) (- 1)"
    by (simp add: multiplication_overflow_exact sint_limits_min in_range_def rep_min_def rep_max_def)
  from n times_no_alignment [of True "\<lparr>fp_scale = 1, fp_value = 3 :: 32 word\<rparr>"
      "\<lparr>fp_scale = 2, fp_value = 4\<rparr>"]
  have 1: "\<exists>r. times True \<lparr>fp_scale = 1, fp_value = 3 :: 32 word\<rparr> \<lparr>fp_scale = 2, fp_value = 4\<rparr>
          = Returns r \<and>
        fp_value r = 12 \<and> fp_scale r = 3 \<and> sint (fp_value r) = 12"
    by simp
  from o times_no_alignment [of True "\<lparr>fp_scale = 0, fp_value = limits_min :: 32 word\<rparr>"
      "\<lparr>fp_scale = 0, fp_value = - 1\<rparr>"]
  have 2: "times True \<lparr>fp_scale = 0, fp_value = limits_min :: 32 word\<rparr>
      \<lparr>fp_scale = 0, fp_value = - 1\<rparr> = Raises (overflow_error TYPE(32))"
    by simp
  from n o 1 2 show ?thesis by blast
qed

lemma divide_cases:
  fixes lhs rhs :: "'a::len word fixed_point"
  shows "divide dbg lhs rhs =
     (if dbg \<and> division_overflow (fp_value lhs) (fp_value rhs)
      then Raises (overflow_error TYPE('a))
      else case rep_div (fp_value lhs) (fp_value rhs) of
             None \<Rightarrow> Undefined
           | Some q \<Rightarrow> Returns \<lparr>fp_scale = fp_scale lhs - fp_scale rhs, fp_value = q\<rparr>)"
  by (simp add: divide_def bind_def defined_def fixed_point_scaled_def split: option.split)

lemma divide_min_by_minus_one:
  fixes lhs rhs :: "'a::len word fixed_point"
  assumes "division_overflow (fp_value lhs) (fp_value rhs)"
  shows "divide True lhs rhs = Raises (overflow_error TYPE('a))"
    and "32 \<le> LENGTH('a) \<Longrightarrow> divide False lhs rhs = Undefined"
    and "LENGTH('a) < 32 \<Longrightarrow>
           divide False lhs rhs =
             Returns \<lparr>fp_scale = fp_scale lhs - fp_scale rhs, fp_value = limits_min\<rparr>"
  using assms
  by (simp_all add: divide_cases division_overflow_def rep_div_min_wide rep_div_min_narrow)

text \<open>
  C7, as amended. For a nonzero divisor and operands other than \<open>MIN\<close> and \<open>-1\<close>,
  division returns a value whose unscaled value is the quotient of the raw
  unscaled values, truncated toward zero, and whose scale is
  \<open>lhs.scale - rhs.scale\<close>; the dividend is not rescaled. For \<open>MIN / -1\<close> the build
  with the check fails with the overflow error; without the check the division
  of \<open>int32_t\<close> or \<open>int64_t\<close> has no result, and that of \<open>int8_t\<close> or \<open>int16_t\<close>,
  carried out in \<open>int\<close>, yields \<open>- MIN\<close>, which is stored as \<open>MIN\<close>.
\<close>

theorem divide_truncates:
  fixes lhs rhs :: "'a::len word fixed_point"
  shows "(fp_value rhs \<noteq> 0 \<and> \<not> division_overflow (fp_value lhs) (fp_value rhs) \<longrightarrow>
            (\<exists>r. divide dbg lhs rhs = Returns r \<and>
                 sint (fp_value r) =
                   sgn (sint (fp_value lhs)) * sgn (sint (fp_value rhs)) *
                   (\<bar>sint (fp_value lhs)\<bar> div \<bar>sint (fp_value rhs)\<bar>) \<and>
                 fp_scale r = fp_scale lhs - fp_scale rhs)) \<and>
         (division_overflow (fp_value lhs) (fp_value rhs) \<longrightarrow>
            divide True lhs rhs = Raises (overflow_error TYPE('a)) \<and>
            (32 \<le> LENGTH('a) \<longrightarrow> divide False lhs rhs = Undefined) \<and>
            (LENGTH('a) < 32 \<longrightarrow>
               divide False lhs rhs =
                 Returns \<lparr>fp_scale = fp_scale lhs - fp_scale rhs, fp_value = limits_min\<rparr>))"
proof -
  have "\<exists>r. divide dbg lhs rhs = Returns r \<and>
           sint (fp_value r) =
             sgn (sint (fp_value lhs)) * sgn (sint (fp_value rhs)) *
             (\<bar>sint (fp_value lhs)\<bar> div \<bar>sint (fp_value rhs)\<bar>) \<and>
           fp_scale r = fp_scale lhs - fp_scale rhs"
    if nz: "fp_value rhs \<noteq> 0" and nov: "\<not> division_overflow (fp_value lhs) (fp_value rhs)"
  proof -
    note q = rep_div_Some [OF nz nov]
    let ?r = "\<lparr>fp_scale = fp_scale lhs - fp_scale rhs,
               fp_value = word_of_int (sint (fp_value lhs) sdiv sint (fp_value rhs)) :: 'a word\<rparr>"
    have d: "divide dbg lhs rhs = Returns ?r"
      using nov by (simp add: divide_cases q(1))
    have "sint (fp_value ?r) = sint (fp_value lhs) sdiv sint (fp_value rhs)"
      by (simp add: q(2))
    also have "\<dots> = sgn (sint (fp_value lhs)) * sgn (sint (fp_value rhs)) *
                 (\<bar>sint (fp_value lhs)\<bar> div \<bar>sint (fp_value rhs)\<bar>)"
      by (rule signed_divide_int_def)
    finally have v: "sint (fp_value ?r) =
        sgn (sint (fp_value lhs)) * sgn (sint (fp_value rhs)) *
        (\<bar>sint (fp_value lhs)\<bar> div \<bar>sint (fp_value rhs)\<bar>)" .
    have sc: "fp_scale ?r = fp_scale lhs - fp_scale rhs" by simp
    from d v sc show ?thesis by blast
  qed
  then show ?thesis
    using divide_min_by_minus_one [of lhs rhs] by blast
qed

theorem divide_truncates_witness:
  "(2 :: 32 word) \<noteq> 0 \<and> \<not> division_overflow (- 7 :: 32 word) 2 \<and>
   (\<exists>r. divide True \<lparr>fp_scale = 1, fp_value = - 7 :: 32 word\<rparr> \<lparr>fp_scale = 3, fp_value = 2\<rparr>
          = Returns r \<and>
        sint (fp_value r) = - 3 \<and> fp_scale r = - 2) \<and>
   division_overflow (limits_min :: 32 word) (- 1) \<and> 32 \<le> LENGTH(32) \<and>
   divide True \<lparr>fp_scale = 0, fp_value = limits_min :: 32 word\<rparr> \<lparr>fp_scale = 0, fp_value = - 1\<rparr>
     = Raises (overflow_error TYPE(32)) \<and>
   divide False \<lparr>fp_scale = 0, fp_value = limits_min :: 32 word\<rparr> \<lparr>fp_scale = 0, fp_value = - 1\<rparr>
     = Undefined \<and>
   division_overflow (limits_min :: 8 word) (- 1) \<and> LENGTH(8) < 32 \<and>
   divide False \<lparr>fp_scale = 0, fp_value = limits_min :: 8 word\<rparr> \<lparr>fp_scale = 0, fp_value = - 1\<rparr>
     = Returns \<lparr>fp_scale = 0, fp_value = limits_min\<rparr>"
proof -
  have nz: "(2 :: 32 word) \<noteq> 0" by simp
  have n: "\<not> division_overflow (- 7 :: 32 word) 2"
    by (simp add: division_overflow_def)
  have o: "division_overflow (limits_min :: 32 word) (- 1)"
    by (simp add: division_overflow_def)
  have w: "32 \<le> LENGTH(32)" by simp
  from nz n divide_truncates [of "\<lparr>fp_scale = 3, fp_value = 2 :: 32 word\<rparr>"
      "\<lparr>fp_scale = 1, fp_value = - 7\<rparr>" True]
  have 1: "\<exists>r. divide True \<lparr>fp_scale = 1, fp_value = - 7 :: 32 word\<rparr>
      \<lparr>fp_scale = 3, fp_value = 2\<rparr> = Returns r \<and> sint (fp_value r) = - 3 \<and> fp_scale r = - 2"
    by auto
  from o w divide_truncates [of "\<lparr>fp_scale = 0, fp_value = - 1 :: 32 word\<rparr>"
      "\<lparr>fp_scale = 0, fp_value = limits_min\<rparr>" True]
  have 2: "divide True \<lparr>fp_scale = 0, fp_value = limits_min :: 32 word\<rparr>
      \<lparr>fp_scale = 0, fp_value = - 1\<rparr> = Raises (overflow_error TYPE(32)) \<and>
    divide False \<lparr>fp_scale = 0, fp_value = limits_min :: 32 word\<rparr>
      \<lparr>fp_scale = 0, fp_value = - 1\<rparr> = Undefined"
    by simp
  have o8: "division_overflow (limits_min :: 8 word) (- 1)"
    by (simp add: division_overflow_def)
  have w8: "LENGTH(8) < 32" by simp
  from o8 w8 divide_truncates [of "\<lparr>fp_scale = 0, fp_value = - 1 :: 8 word\<rparr>"
      "\<lparr>fp_scale = 0, fp_value = limits_min\<rparr>" False]
  have 3: "divide False \<lparr>fp_scale = 0, fp_value = limits_min :: 8 word\<rparr>
      \<lparr>fp_scale = 0, fp_value = - 1\<rparr> = Returns \<lparr>fp_scale = 0, fp_value = limits_min\<rparr>"
    by simp
  from nz n o w 1 2 o8 w8 3 show ?thesis by blast
qed

text \<open>
  For every nonzero divisor the specification promises a quotient. The dividend
  \<open>MIN\<close> with the divisor \<open>-1\<close> has none: the checked build fails, the unchecked
  32-bit division is undefined.
\<close>

theorem divide_counterexample:
  "(- 1 :: 32 word) \<noteq> 0 \<and>
   divide True \<lparr>fp_scale = 0, fp_value = limits_min :: 32 word\<rparr> \<lparr>fp_scale = 0, fp_value = - 1\<rparr>
     = Raises (overflow_error TYPE(32)) \<and>
   divide False \<lparr>fp_scale = 0, fp_value = limits_min :: 32 word\<rparr> \<lparr>fp_scale = 0, fp_value = - 1\<rparr>
     = Undefined"
  using divide_min_by_minus_one
    [of "\<lparr>fp_scale = 0, fp_value = limits_min :: 32 word\<rparr>" "\<lparr>fp_scale = 0, fp_value = - 1\<rparr>"]
  by (simp add: division_overflow_def)

section \<open>Errors\<close>

lemma bind_defined_not_Raises: "bind (defined m) (\<lambda>v. Returns (f v)) \<noteq> Raises e"
  by (cases m) (simp_all add: bind_def defined_def)

lemma fixed_point_native_not_Raises: "fixed_point_native pw Rad v s \<noteq> Raises e"
  by (simp add: fixed_point_native_def fixed_point_double_def bind_defined_not_Raises)

lemma to_integer_not_Raises: "to_integer pw Rad x \<noteq> Raises e"
  by (simp add: to_integer_def defined_def split: option.split)

lemma guarded_Raises:
  "(if C then Raises E else bind (defined X) (\<lambda>v. Returns (F v))) = Raises e \<Longrightarrow> C \<and> e = E"
  by (cases C; cases X) (simp_all add: bind_def defined_def)

lemma plus_Raises:
  fixes lhs rhs :: "'a::len word fixed_point"
  assumes "plus dbg pw Rad lhs rhs = Raises e"
  shows "dbg \<and> e = overflow_error TYPE('a)"
  using guarded_Raises [OF assms [unfolded plus_def Let_def]] by simp

lemma minus_Raises:
  fixes lhs rhs :: "'a::len word fixed_point"
  assumes "minus dbg pw Rad lhs rhs = Raises e"
  shows "dbg \<and> e = overflow_error TYPE('a)"
  using guarded_Raises [OF assms [unfolded minus_def Let_def]] by simp

text \<open>
  C9. With the check compiled in, division fails exactly for the dividend \<open>MIN\<close>
  and the divisor \<open>-1\<close>. Every failure of the four operators is the overflow
  error, and none occurs without the check; construction and conversion never
  fail. \<open>division_overflow(lhs, 0)\<close> is false: a zero divisor is never reported,
  the division by zero is simply executed.
\<close>

theorem checked_division_overflow_only:
  fixes lhs rhs :: "'a::len word fixed_point"
  shows "((\<exists>e. divide True lhs rhs = Raises e) \<longleftrightarrow>
            fp_value lhs = limits_min \<and> fp_value rhs = - 1) \<and>
         (\<forall>e. divide dbg lhs rhs = Raises e \<longrightarrow> dbg \<and> e = overflow_error TYPE('a)) \<and>
         (\<forall>e. times dbg lhs rhs = Raises e \<longrightarrow> dbg \<and> e = overflow_error TYPE('a)) \<and>
         (\<forall>e. plus dbg pw Rad lhs rhs = Raises e \<longrightarrow> dbg \<and> e = overflow_error TYPE('a)) \<and>
         (\<forall>e. minus dbg pw Rad lhs rhs = Raises e \<longrightarrow> dbg \<and> e = overflow_error TYPE('a)) \<and>
         (\<forall>e. (fixed_point_native pw Rad (fp_value lhs) (fp_scale lhs) :: 'a word fixed_point outcome)
                \<noteq> Raises e) \<and>
         (\<forall>e. (to_integer pw Rad lhs :: 'a word outcome) \<noteq> Raises e) \<and>
         \<not> division_overflow (fp_value lhs) 0 \<and>
         (fp_value rhs = 0 \<longrightarrow> divide dbg lhs rhs = Undefined)"
proof -
  have z: "(0 :: 'a word) \<noteq> - 1"
    by (metis sint_0 sint_n1 zero_neq_neg_one)
  have d1: "(\<exists>e. divide True lhs rhs = Raises e) \<longleftrightarrow>
            fp_value lhs = limits_min \<and> fp_value rhs = - 1"
    by (auto simp: divide_cases division_overflow_def split: option.splits)
  have d2: "\<forall>e. divide dbg lhs rhs = Raises e \<longrightarrow> dbg \<and> e = overflow_error TYPE('a)"
    by (auto simp: divide_cases split: if_splits option.splits)
  have t: "\<forall>e. times dbg lhs rhs = Raises e \<longrightarrow> dbg \<and> e = overflow_error TYPE('a)"
    by (auto simp: times_def split: if_splits)
  have p: "\<forall>e. plus dbg pw Rad lhs rhs = Raises e \<longrightarrow> dbg \<and> e = overflow_error TYPE('a)"
    using plus_Raises [of dbg pw Rad lhs rhs] by blast
  have m: "\<forall>e. minus dbg pw Rad lhs rhs = Raises e \<longrightarrow> dbg \<and> e = overflow_error TYPE('a)"
    using minus_Raises [of dbg pw Rad lhs rhs] by blast
  have n: "\<not> division_overflow (fp_value lhs) 0"
    using z by (simp add: division_overflow_def)
  have u: "fp_value rhs = 0 \<longrightarrow> divide dbg lhs rhs = Undefined"
    using z by (simp add: divide_cases division_overflow_def rep_div_zero)
  have c: "\<forall>e. (fixed_point_native pw Rad (fp_value lhs) (fp_scale lhs) :: 'a word fixed_point outcome)
                \<noteq> Raises e"
    by (simp add: fixed_point_native_not_Raises)
  have i: "\<forall>e. (to_integer pw Rad lhs :: 'a word outcome) \<noteq> Raises e"
    by (simp add: to_integer_not_Raises)
  from d1 d2 t p m c i n u show ?thesis by blast
qed

theorem checked_division_overflow_only_witness:
  "divide True \<lparr>fp_scale = 0, fp_value = limits_min :: 32 word\<rparr> \<lparr>fp_scale = 0, fp_value = - 1\<rparr>
     = Raises (overflow_error TYPE(32)) \<and>
   divide True \<lparr>fp_scale = 0, fp_value = 5 :: 32 word\<rparr> \<lparr>fp_scale = 0, fp_value = 0\<rparr> = Undefined"
proof -
  note a = checked_division_overflow_only [of "\<lparr>fp_scale = 0, fp_value = limits_min :: 32 word\<rparr>"
      "\<lparr>fp_scale = 0, fp_value = - 1\<rparr>" True pow_rounded BASE_10]
  note b = checked_division_overflow_only [of "\<lparr>fp_scale = 0, fp_value = 5 :: 32 word\<rparr>"
      "\<lparr>fp_scale = 0, fp_value = 0\<rparr>" True pow_rounded BASE_10]
  from a have "divide True \<lparr>fp_scale = 0, fp_value = limits_min :: 32 word\<rparr>
      \<lparr>fp_scale = 0, fp_value = - 1\<rparr> = Raises (overflow_error TYPE(32))"
    by auto
  moreover from b have "divide True \<lparr>fp_scale = 0, fp_value = 5 :: 32 word\<rparr>
      \<lparr>fp_scale = 0, fp_value = 0\<rparr> = Undefined"
    by simp
  ultimately show ?thesis by simp
qed

section \<open>Compound assignment is the binary operator followed by assignment\<close>

text \<open>
  C10. \<open>x op= y\<close> stores in \<open>x\<close> what \<open>x op y\<close> returns from the prior state,
  changes no other object, returns the reference to \<open>x\<close>, and fails or is
  undefined exactly as \<open>x op y\<close> is, leaving the store as it was; this also
  when \<open>y\<close> is \<open>x\<close> itself.
\<close>

theorem compound_assignment_refines:
  fixes st :: "'a::len word store"
  shows "plus_assign dbg pw Rad st this rhs =
           (case plus dbg pw Rad (st this) (st rhs) of
              Returns r \<Rightarrow> Returns (st(this := r), this)
            | Raises e \<Rightarrow> Raises e | Undefined \<Rightarrow> Undefined) \<and>
         minus_assign dbg pw Rad st this rhs =
           (case minus dbg pw Rad (st this) (st rhs) of
              Returns r \<Rightarrow> Returns (st(this := r), this)
            | Raises e \<Rightarrow> Raises e | Undefined \<Rightarrow> Undefined) \<and>
         times_assign dbg st this rhs =
           (case times dbg (st this) (st rhs) of
              Returns r \<Rightarrow> Returns (st(this := r), this)
            | Raises e \<Rightarrow> Raises e | Undefined \<Rightarrow> Undefined) \<and>
         divide_assign dbg st this rhs =
           (case divide dbg (st this) (st rhs) of
              Returns r \<Rightarrow> Returns (st(this := r), this)
            | Raises e \<Rightarrow> Raises e | Undefined \<Rightarrow> Undefined)"
  by (simp add: plus_assign_def minus_assign_def times_assign_def divide_assign_def bind_def)

section \<open>Rounding to \<open>double\<close>\<close>

text \<open>
  An integer with at most 53 significant bits is a \<open>double\<close>: rounding leaves it
  as it is. This is what makes the integer paths through \<open>shift\<close> exact on small
  values, and what fails from \<open>2 ^ 53 + 1\<close> on.
\<close>

text \<open>\<open>floor_log2\<close> is the binary exponent of a positive rational.\<close>

lemma floor_log2_bounds:
  assumes x: "0 < x"
  shows "2 powi floor_log2 x \<le> x \<and> x < 2 powi (floor_log2 x + 1)"
proof (cases "1 \<le> x")
  case True
  define n where "n = \<lfloor>x\<rfloor>"
  define b where "b = bitlen n"
  have n: "1 \<le> n" using True by (simp add: n_def)
  then have bb: "2 ^ nat (b - 1) \<le> n" "n < 2 ^ nat b"
    using bitlen_bounds [of n] by (simp_all add: b_def)
  have b1: "1 \<le> b" using n bitlen_ge_iff_power [of 1 n] by (simp add: b_def)
  have fl: "floor_log2 x = b - 1" using True by (simp add: floor_log2_def n_def b_def)
  have lo: "(2 :: rat) powi (b - 1) = of_int (2 ^ nat (b - 1))"
    using b1 by (simp add: power_int_def)
  have hi: "(2 :: rat) powi b = of_int (2 ^ nat b)"
    using b1 by (simp add: power_int_def)
  have "rat_of_int (2 ^ nat (b - 1)) \<le> of_int n" using bb(1) by (simp only: of_int_le_iff)
  also have "\<dots> \<le> x" by (simp add: n_def)
  finally have 1: "2 powi (b - 1) \<le> x" by (simp only: lo)
  have "x < of_int (n + 1)" unfolding n_def by linarith
  also have "\<dots> \<le> of_int (2 ^ nat b)" using bb(2) by (simp only: of_int_le_iff; simp)
  finally have 2: "x < 2 powi b" by (simp only: hi)
  from 1 2 show ?thesis by (simp add: fl)
next
  case False
  define y where "y = 1 / x"
  define c where "c = \<lceil>y\<rceil> - 1"
  define b where "b = bitlen c"
  have y: "1 < y" using False x by (simp add: y_def)
  have xy: "x = 1 / y" by (simp add: y_def)
  have c: "1 \<le> c" unfolding c_def using y by linarith
  then have bb: "2 ^ nat (b - 1) \<le> c" "c < 2 ^ nat b"
    using bitlen_bounds [of c] by (simp_all add: b_def)
  have b1: "1 \<le> b" using c bitlen_ge_iff_power [of 1 c] by (simp add: b_def)
  have fl: "floor_log2 x = - b" using False by (simp add: floor_log2_def y_def c_def b_def)
  have cy: "of_int c < y" "y \<le> of_int (c + 1)"
    unfolding c_def by linarith+
  have "y \<le> of_int (c + 1)" by (rule cy(2))
  also have "\<dots> \<le> of_int (2 ^ nat b)" using bb(2) by (simp only: of_int_le_iff; simp)
  finally have yhi: "y \<le> 2 ^ nat b" by simp
  have "rat_of_int (2 ^ nat (b - 1)) \<le> of_int c" using bb(1) by (simp only: of_int_le_iff)
  also have "\<dots> < y" by (rule cy(1))
  finally have ylo: "2 ^ nat (b - 1) < y" by simp
  have p1: "(2 :: rat) powi (- b) = 1 / 2 ^ nat b"
    using b1 by (simp add: power_int_def field_simps)
  have p2: "(2 :: rat) powi (- b + 1) = 1 / 2 ^ nat (b - 1)"
    using b1 by (simp add: power_int_def field_simps nat_diff_distrib)
  have 1: "2 powi (- b) \<le> x"
    unfolding p1 xy using yhi y by (intro divide_left_mono) simp_all
  have 2: "x < 2 powi (- b + 1)"
    unfolding p2 xy using ylo y by (intro divide_strict_left_mono) simp_all
  from 1 2 show ?thesis by (simp add: fl)
qed

lemma round_ties_even_of_int [simp]: "round_ties_even (of_int j) = j"
  by (simp add: round_ties_even_def)

lemma floor_log2_of_int: "1 \<le> n \<Longrightarrow> floor_log2 (of_int n) = bitlen n - 1"
  by (simp add: floor_log2_def)

lemma sgn_rat_of_int: "sgn (rat_of_int k) = of_int (sgn k)"
  by (cases k "0 :: int" rule: linorder_cases) simp_all

lemma round_double_exact:
  assumes m: "\<bar>m\<bar> < 2 ^ 53" and j: "j \<le> 971"
  shows "round_double (of_int (m * 2 ^ j)) = Finite (of_int (m * 2 ^ j))"
proof (cases "m = 0")
  case True
  then show ?thesis by (simp add: round_double_def)
next
  case False
  define a where "a = \<bar>m\<bar>"
  define x where "x = a * 2 ^ j"
  have a: "1 \<le> a" "a < 2 ^ 53" using False m by (simp_all add: a_def)
  have x1: "1 \<le> x"
  proof -
    have "1 * 1 \<le> a * 2 ^ j" using a by (intro mult_mono) auto
    then show ?thesis by (simp add: x_def)
  qed
  have abs: "\<bar>rat_of_int (m * 2 ^ j)\<bar> = of_int x"
    by (simp add: a_def x_def abs_mult)
  have bl: "1 \<le> bitlen a" "bitlen a \<le> 53"
    using a by (simp_all add: bitlen_le_iff_power bitlen_ge_iff_power)
  have "bitlen x = bitlen a + int j"
    unfolding x_def using a by (intro bitlen_pow2) simp
  then have fl: "floor_log2 (of_int x) = bitlen a + int j - 1"
    using floor_log2_of_int [OF x1] by simp
  define e where "e = max (floor_log2 (rat_of_int x) - 52) (- 1074)"
  have e: "e = bitlen a + int j - 53" using bl by (simp add: e_def fl)
  define k where "k = nat (int j - e)"
  have k: "int k = int j - e" using bl by (simp add: k_def e)
  have pj: "(2 :: rat) ^ j = 2 powi (int j)" by simp
  have q: "rat_of_int x / 2 powi e = of_int (a * 2 ^ k)"
  proof -
    have "(2 :: rat) powi (int j) / 2 powi e = 2 powi (int j - e)"
      by (simp add: power_int_diff)
    also have "\<dots> = 2 ^ k" using k by (metis power_int_of_nat)
    finally have "(2 :: rat) powi (int j) / 2 powi e = 2 ^ k" .
    then have "rat_of_int a * (2 powi (int j) / 2 powi e) = rat_of_int a * 2 ^ k"
      by (rule arg_cong)
    then show ?thesis by (simp add: x_def pj del: power_int_of_nat)
  qed
  have y: "rat_of_int (a * 2 ^ k) * 2 powi e = of_int x"
  proof -
    have "(2 :: rat) ^ k * 2 powi e = 2 powi (int k + e)"
      by (simp add: power_int_add)
    also have "\<dots> = 2 ^ j" using k by simp
    finally show ?thesis by (simp add: x_def mult.assoc)
  qed
  have small: "\<not> (2 :: rat) ^ 1024 \<le> of_int x"
  proof -
    have p: "(2 :: int) ^ j \<le> 2 ^ 971"
      using j by (intro power_increasing) simp_all
    have "x < 2 ^ 53 * 2 ^ 971"
      unfolding x_def using a p by (intro mult_less_le_imp_less) simp_all
    then have "x < 2 ^ 1024" by simp
    then have "rat_of_int x < 2 ^ 1024" by (metis of_int_less_numeral_power_cancel_iff)
    then show ?thesis by simp
  qed
  have sg: "sgn (rat_of_int (m * 2 ^ j)) * of_int x = of_int (m * 2 ^ j)"
  proof -
    have i: "sgn (m * 2 ^ j) * x = m * 2 ^ j"
      by (simp add: x_def a_def sgn_mult mult_sgn_abs flip: mult.assoc)
    have "sgn (rat_of_int (m * 2 ^ j)) = of_int (sgn (m * 2 ^ j))"
      by (rule sgn_rat_of_int)
    then have "sgn (rat_of_int (m * 2 ^ j)) * of_int x = of_int (sgn (m * 2 ^ j) * x)"
      by simp
    then show ?thesis by (simp only: i)
  qed
  have nz: "rat_of_int (m * 2 ^ j) \<noteq> 0" using False by simp
  show ?thesis
    unfolding round_double_def abs Let_def e_def [symmetric] q round_ties_even_of_int y
    using nz small sg by simp
qed

lemma round_double_of_int:
  "\<bar>n\<bar> < 2 ^ 53 \<Longrightarrow> round_double (of_int n) = Finite (of_int n)"
  using round_double_exact [of n 0] by simp

lemma int_to_double_exact: "\<bar>n\<bar> < 2 ^ 53 \<Longrightarrow> int_to_double n = Finite (of_int n)"
  by (simp add: int_to_double_def round_double_of_int)

lemma floor_rat_numeral:
  "\<lfloor>numeral a / numeral b :: rat\<rfloor> = numeral a div numeral b"
  using floor_divide_of_int_eq [of "numeral a" "numeral b", where ?'a = rat] by simp

lemma ceiling_rat_numeral:
  "\<lceil>numeral a / numeral b :: rat\<rceil> = - (- numeral a div numeral b)"
  using floor_divide_of_int_eq [of "- numeral a" "numeral b", where ?'a = rat]
  by (simp add: ceiling_def)

lemma bitlen_9: "bitlen 9 = 4"
  using bitlen_twopow_add_eq [of 1 3] by simp

lemma round_double_tenth:
  "round_double (1 / 10) = Finite (3602879701896397 / 36028797018963968)"
proof -
  have "floor_log2 \<bar>1 / 10\<bar> = - 4" by (simp add: floor_log2_def bitlen_9 ceiling_rat_numeral)
  then show ?thesis
    by (simp add: round_double_def Let_def round_ties_even_def floor_rat_numeral)
qed

lemma round_double_tenth_again:
  "round_double (3602879701896397 / 36028797018963968) =
     Finite (3602879701896397 / 36028797018963968)"
proof -
  have "floor_log2 \<bar>3602879701896397 / 36028797018963968\<bar> = - 4"
    by (simp add: floor_log2_def bitlen_9 ceiling_rat_numeral)
  then show ?thesis
    by (simp add: round_double_def Let_def round_ties_even_def floor_rat_numeral)
qed

lemma round_double_numeral:
  "(numeral n :: int) < 2 ^ 53 \<Longrightarrow> round_double (numeral n) = Finite (numeral n)"
  using round_double_of_int [of "numeral n"] by simp

lemma round_double_neg_numeral:
  "(numeral n :: int) < 2 ^ 53 \<Longrightarrow> round_double (- numeral n) = Finite (- numeral n)"
  using round_double_of_int [of "- numeral n"] by simp


lemma radix_val_ge2: "2 \<le> radix_val Rad"
  by (cases Rad) (simp_all add: radix_val_def)

lemma radix_power_small:
  assumes "radix_val Rad ^ n < 2 ^ 53"
  shows "n < 53"
proof -
  have "(2 :: int) ^ n \<le> radix_val Rad ^ n"
    using radix_val_ge2 [of Rad] by (intro power_mono) simp_all
  then have "(2 :: int) ^ n < 2 ^ 53" using assms by linarith
  then show ?thesis by (rule power_less_imp_less_exp [rotated]) simp
qed

lemma sint_scale_bounds: "- (2 ^ 31) \<le> sint (s :: scale_type)" "sint (s :: scale_type) < 2 ^ 31"
  using sint_ge [of s] sint_lt [of s] by simp_all

lemma sint_uminus_scale:
  fixes s :: scale_type
  assumes "sint s \<noteq> - (2 ^ 31)"
  shows "sint (- s) = - sint s"
proof -
  have "sint (0 - s) = sint (0 :: scale_type) - sint s"
    using assms sint_scale_bounds [of s]
    by (intro sint_diff_in_range) (simp add: in_range_def rep_min_def rep_max_def)
  then show ?thesis by simp
qed

lemma negate_eq: "negate s = - s"
  by (simp add: negate_def)

lemma pow_rounded_exact:
  assumes "0 \<le> e" and "0 < b" and "b ^ nat e < 2 ^ 53"
  shows "pow_rounded b e = Finite (of_int (b ^ nat e))"
proof -
  have "rat_of_int b powi e = of_int (b ^ nat e)"
    using assms(1) by (simp add: power_int_def)
  moreover have "\<bar>b ^ nat e\<bar> < 2 ^ 53"
    using assms(2,3) by (simp add: abs_if)
  ultimately show ?thesis
    by (simp only: pow_rounded_def round_double_of_int)
qed

lemma rep_to_double_exact:
  "\<bar>sint v\<bar> < 2 ^ 53 \<Longrightarrow> rep_to_double v = Finite (of_int (sint v))"
  by (simp add: rep_to_double_def int_to_double_exact)

lemma round_ties_even_ge_floor: "\<lfloor>x\<rfloor> \<le> round_ties_even x"
  by (simp add: round_ties_even_def Let_def)

lemma round_double_tiny:
  assumes x: "0 < x" and small: "x < 2 powi (- 1075)"
  shows "round_double x = Finite 0"
proof -
  have "\<not> - 1075 \<le> floor_log2 x"
  proof
    assume "- 1075 \<le> floor_log2 x"
    then have "(2 :: rat) powi (- 1075) \<le> 2 powi floor_log2 x"
      by (intro power_int_increasing) simp_all
    also have "\<dots> \<le> x" using floor_log2_bounds [OF x] by simp
    finally show False using small by simp
  qed
  then have e: "max (floor_log2 \<bar>x\<bar> - 52) (- 1074) = - 1074"
    using x by simp
  have q: "x / 2 powi (- 1074) = x * 2 ^ 1074"
    by (simp add: power_int_minus field_simps)
  have "x * 2 ^ 1074 < 2 powi (- 1075) * 2 ^ 1074"
    using small by (intro mult_strict_right_mono) simp_all
  also have "\<dots> = 1 / 2"
    by (simp add: power_int_minus field_simps)
  finally have lt: "x * 2 ^ 1074 < 1 / 2" .
  have pos: "0 < x * 2 ^ 1074" using x by simp
  have fl: "\<lfloor>x * 2 ^ 1074\<rfloor> = 0"
    using lt pos by (intro floor_unique) simp_all
  have "round_ties_even (x * 2 ^ 1074) = 0"
    unfolding round_ties_even_def Let_def fl using lt by simp
  then show ?thesis
    using x unfolding round_double_def Let_def e
    by (simp add: q abs_of_pos)
qed

lemma round_double_huge:
  assumes big: "2 ^ 1024 \<le> x"
  shows "round_double x = PInf"
proof -
  have x: "0 < x"
  proof -
    have "(0 :: rat) < 2 ^ 1024" by simp
    then show ?thesis using big by linarith
  qed
  define l where "l = floor_log2 x"
  have lb: "2 powi l \<le> x" "x < 2 powi (l + 1)"
    using floor_log2_bounds [OF x] by (simp_all add: l_def)
  have l: "1024 \<le> l"
  proof (rule ccontr)
    assume "\<not> 1024 \<le> l"
    then have "l + 1 \<le> 1024" by simp
    then have "(2 :: rat) powi (l + 1) \<le> 2 powi 1024"
      by (intro power_int_increasing) simp_all
    then have "x < 2 powi 1024" using lb(2) by linarith
    then show False using big by simp
  qed
  define e where "e = l - 52"
  have e: "max (floor_log2 \<bar>x\<bar> - 52) (- 1074) = e"
    using x l by (simp add: e_def l_def)
  have pe: "(0 :: rat) < 2 powi e" by simp
  have "(2 :: rat) powi (e + 52) = 2 powi e * 2 powi 52"
    by (rule power_int_add) simp
  moreover have "e + 52 = l" by (simp add: e_def)
  moreover have "(2 :: rat) powi 52 = 2 ^ 52" by simp
  ultimately have split: "(2 :: rat) powi l = 2 ^ 52 * 2 powi e"
    by (simp only: mult.commute)
  have "2 ^ 52 * 2 powi e \<le> x" using lb(1) split by simp
  then have "2 ^ 52 \<le> x / 2 powi e"
    using pe by (simp add: pos_le_divide_eq)
  then have "(2 :: int) ^ 52 \<le> \<lfloor>x / 2 powi e\<rfloor>"
    by (simp add: le_floor_iff)
  then have m: "(2 :: int) ^ 52 \<le> round_ties_even (x / 2 powi e)"
    using round_ties_even_ge_floor [of "x / 2 powi e"] by linarith
  have "(2 :: rat) ^ 1024 = 2 powi 1024" by simp
  also have "\<dots> \<le> 2 powi l"
    using l by (intro power_int_increasing) simp_all
  also have "\<dots> = 2 ^ 52 * 2 powi e" by (rule split)
  also have "\<dots> \<le> of_int (round_ties_even (x / 2 powi e)) * 2 powi e"
  proof -
    have "rat_of_int (2 ^ 52) \<le> of_int (round_ties_even (x / 2 powi e))"
      using m by (simp only: of_int_le_iff)
    then show ?thesis using pe by (intro mult_right_mono) simp_all
  qed
  finally have y: "(2 :: rat) ^ 1024 \<le> of_int (round_ties_even (x / 2 powi e)) * 2 powi e" .
  show ?thesis
    using x y unfolding round_double_def Let_def e
    by (simp add: abs_of_pos signed_inf_def)
qed

lemma pow_rounded_underflow:
  assumes e: "e < - 1075" and b: "2 \<le> b"
  shows "pow_rounded b e = Finite 0"
proof -
  define n where "n = nat (- e)"
  have n: "1075 < n" using e by (simp add: n_def)
  have pw: "rat_of_int b powi e = 1 / of_int b ^ n"
    using e by (simp add: power_int_def n_def field_simps)
  have "(2 :: rat) ^ 1075 < 2 ^ n" using n by (intro power_strict_increasing) simp_all
  also have "\<dots> \<le> of_int b ^ n" using b by (intro power_mono) simp_all
  finally have lt: "(2 :: rat) ^ 1075 < of_int b ^ n" .
  have bpos: "(0 :: rat) < of_int b ^ n" using b by simp
  have "1 / rat_of_int b ^ n < 1 / 2 ^ 1075"
    using lt by (intro divide_strict_left_mono) simp_all
  also have "\<dots> = 2 powi (- 1075)" by (simp add: power_int_minus field_simps)
  finally have "rat_of_int b powi e < 2 powi (- 1075)" by (simp only: pw)
  moreover have "0 < rat_of_int b powi e" using bpos by (simp only: pw) simp
  ultimately show ?thesis
    unfolding pow_rounded_def by (intro round_double_tiny)
qed

lemma pow_rounded_overflow:
  assumes e: "1024 \<le> e" and b: "2 \<le> b"
  shows "pow_rounded b e = PInf"
proof -
  define n where "n = nat e"
  have n: "1024 \<le> n" using e by (simp add: n_def)
  have pw: "rat_of_int b powi e = of_int b ^ n"
    using e by (simp add: power_int_def n_def)
  have "(2 :: rat) ^ 1024 \<le> 2 ^ n" using n by (intro power_increasing) simp_all
  also have "\<dots> \<le> of_int b ^ n" using b by (intro power_mono) simp_all
  finally have "(2 :: rat) ^ 1024 \<le> rat_of_int b powi e" by (simp only: pw)
  then show ?thesis
    unfolding pow_rounded_def by (rule round_double_huge)
qed

lemma scale_min_self_inverse:
  fixes s :: scale_type
  assumes "sint s = - (2 ^ 31)"
  shows "- s = s"
proof -
  have "s = word_of_int (sint s)" by simp
  then have "s = word_of_int (- (2 ^ 31))" using assms by simp
  then show ?thesis by simp
qed

lemma shift_cases:
  "shift pw Rad val scale =
     (if 0 \<le> sint scale then fdiv val (pw (radix_val Rad) (sint scale))
      else fmul val (pw (radix_val Rad) (sint (- scale))))"
  by (simp add: shift_def right_shift_def left_shift_def std_pow_def negate_eq word_sle_eq)

lemma sint_scale_min: "sint (- 2147483648 :: scale_type) = - 2147483648"
  by simp

lemma pow_rounded_10_2: "pow_rounded 10 2 = Finite 100"
  using pow_rounded_exact [of 2 10] by simp

section \<open>The direction of a shift\<close>

text \<open>
  C4, as amended. \<open>shift(value, scale)\<close> is \<open>value / Radix^scale\<close> for \<open>scale \<ge> 0\<close>
  and \<open>value * Radix^(-scale)\<close> for every negative scale but the least one, the
  division, the multiplication and the power being those of \<open>double\<close>, whatever
  \<open>std::pow\<close> returns; nothing but the sign of the exponent selects the branch. At
  the least scale, \<open>- 2 ^ 31\<close>, \<open>negate\<close> returns the scale unchanged and the
  multiplication is by \<open>Radix^scale\<close>.
\<close>

theorem shift_direction:
  "(0 \<le> sint scale \<longrightarrow>
      shift pw Rad val scale = fdiv val (pw (radix_val Rad) (sint scale))) \<and>
   (sint scale < 0 \<and> sint scale \<noteq> - (2 ^ 31) \<longrightarrow>
      shift pw Rad val scale = fmul val (pw (radix_val Rad) (- sint scale))) \<and>
   (sint scale = - (2 ^ 31) \<longrightarrow>
      shift pw Rad val scale = fmul val (pw (radix_val Rad) (sint scale)))"
proof (intro conjI impI)
  assume "0 \<le> sint scale"
  then show "shift pw Rad val scale = fdiv val (pw (radix_val Rad) (sint scale))"
    by (simp add: shift_cases)
next
  assume a: "sint scale < 0 \<and> sint scale \<noteq> - (2 ^ 31)"
  then have "sint (- scale) = - sint scale" by (intro sint_uminus_scale) simp
  then show "shift pw Rad val scale = fmul val (pw (radix_val Rad) (- sint scale))"
    using a by (simp add: shift_cases)
next
  assume a: "sint scale = - (2 ^ 31)"
  then have e: "- scale = scale" by (rule scale_min_self_inverse)
  have "shift pw Rad val scale = fmul val (pw (radix_val Rad) (sint (- scale)))"
    using a by (simp add: shift_cases)
  then show "shift pw Rad val scale = fmul val (pw (radix_val Rad) (sint scale))"
    by (simp only: e)
qed

theorem shift_direction_witness:
  "0 \<le> sint (2 :: scale_type) \<and>
   shift pow_rounded BASE_10 (Finite 12500) 2 = Finite 125 \<and>
   sint (- 2 :: scale_type) < 0 \<and> sint (- 2 :: scale_type) \<noteq> - (2 ^ 31) \<and>
   shift pow_rounded BASE_10 (Finite 125) (- 2) = Finite 12500 \<and>
   sint (- 2147483648 :: scale_type) = - (2 ^ 31) \<and>
   shift pow_rounded BASE_10 (Finite 1) (- 2147483648) = Finite 0"
proof -
  have a: "0 \<le> sint (2 :: scale_type)" and b: "sint (- 2 :: scale_type) < 0"
    and c: "sint (- 2 :: scale_type) \<noteq> - (2 ^ 31)"
    and d: "sint (- 2147483648 :: scale_type) = - (2 ^ 31)"
    by (simp_all add: sint_scale_min)
  have u: "pow_rounded 10 (- 2147483648) = Finite 0"
    by (rule pow_rounded_underflow) simp_all
  from a shift_direction [where scale = 2 and pw = pow_rounded and Rad = BASE_10
      and val = "Finite 12500"]
  have "shift pow_rounded BASE_10 (Finite 12500) 2 = Finite 125"
    by (simp add: radix_val_def pow_rounded_10_2 round_double_numeral fdiv_def)
  moreover from b c shift_direction [where scale = "- 2" and pw = pow_rounded
      and Rad = BASE_10 and val = "Finite 125"]
  have "shift pow_rounded BASE_10 (Finite 125) (- 2) = Finite 12500"
    by (simp add: radix_val_def pow_rounded_10_2 round_double_numeral fmul_def)
  moreover from d shift_direction [where scale = "- 2147483648" and pw = pow_rounded
      and Rad = BASE_10 and val = "Finite 1"]
  have "shift pow_rounded BASE_10 (Finite 1) (- 2147483648) = Finite 0"
    by (simp add: radix_val_def sint_scale_min u fmul_def round_double_def)
  ultimately show ?thesis using a b c d by simp
qed

text \<open>
  At the least scale the specification's \<open>value * Radix^(-scale)\<close> is \<open>1 * 10^2147483648\<close>,
  infinity as a \<open>double\<close>, whereas \<open>shift\<close> multiplies by \<open>10^(-2147483648)\<close> and
  returns 0.
\<close>

theorem shift_direction_counterexample:
  "sint (- 2147483648 :: scale_type) < 0 \<and>
   shift pow_rounded BASE_10 (Finite 1) (- 2147483648) = Finite 0 \<and>
   fmul (Finite 1)
     (pow_rounded (radix_val BASE_10) (- sint (- 2147483648 :: scale_type))) = PInf \<and>
   shift pow_rounded BASE_10 (Finite 1) (- 2147483648) \<noteq>
     fmul (Finite 1)
       (pow_rounded (radix_val BASE_10) (- sint (- 2147483648 :: scale_type)))"
proof -
  have u: "pow_rounded 10 (- 2147483648) = Finite 0"
    by (rule pow_rounded_underflow) simp_all
  have o: "pow_rounded 10 2147483648 = PInf"
    by (rule pow_rounded_overflow) simp_all
  have s: "shift pow_rounded BASE_10 (Finite 1) (- 2147483648) = Finite 0"
    by (simp add: shift_cases sint_scale_min radix_val_def u fmul_def round_double_def)
  have f: "fmul (Finite 1)
      (pow_rounded (radix_val BASE_10) (- sint (- 2147483648 :: scale_type))) = PInf"
    by (simp add: sint_scale_min radix_val_def o fmul_def dsgn_def signed_inf_def)
  show ?thesis
    unfolding s f by (simp add: sint_scale_min)
qed

lemma floor_rat_one_numeral:
  "\<lfloor>1 / numeral b :: rat\<rfloor> = 1 div numeral b"
  using floor_divide_of_int_eq [of 1 "numeral b", where ?'a = rat] by simp

lemma to_double_cases:
  fixes x :: "'a::len word fixed_point"
  shows "to_double pw Rad x =
     (if 0 < sint (fp_scale x) \<or> sint (fp_scale x) = - (2 ^ 31)
      then fmul (rep_to_double (fp_value x)) (pw (radix_val Rad) (sint (fp_scale x)))
      else fdiv (rep_to_double (fp_value x)) (pw (radix_val Rad) (- sint (fp_scale x))))"
proof (cases "sint (fp_scale x) = - (2 ^ 31)")
  case True
  then have eq: "- fp_scale x = fp_scale x" by (rule scale_min_self_inverse)
  have "sint (- fp_scale x) = - (2 ^ 31)" unfolding eq by (rule True)
  then have neg: "\<not> 0 \<le> sint (- fp_scale x)" by simp
  have "to_double pw Rad x = fmul (rep_to_double (fp_value x))
          (pw (radix_val Rad) (sint (- (- fp_scale x))))"
    using neg by (simp only: to_double_def negate_eq shift_cases if_False)
  then show ?thesis
    using True by simp
next
  case False
  then have "sint (- fp_scale x) = - sint (fp_scale x)" by (rule sint_uminus_scale)
  then show ?thesis
    using False by (auto simp: to_double_def negate_eq shift_cases)
qed


lemma to_integer_same_type:
  fixes x :: "'a::len word fixed_point"
  shows "(to_integer pw Rad x :: 'a word outcome) = defined (double_to_rep (to_double pw Rad x))"
  by (simp add: to_integer_def to_double_def)



lemma to_double_exact_operands:
  fixes x :: "'a::len word fixed_point"
  assumes u: "\<bar>sint (fp_value x)\<bar> < 2 ^ 53"
    and p: "radix_val Rad ^ nat \<bar>sint (fp_scale x)\<bar> < 2 ^ 53"
    and e: "pw (radix_val Rad) \<bar>sint (fp_scale x)\<bar> =
              Finite (of_int (radix_val Rad ^ nat \<bar>sint (fp_scale x)\<bar>))"
  shows "to_double pw Rad x =
           round_double (of_int (sint (fp_value x)) * of_int (radix_val Rad) powi sint (fp_scale x))"
proof -
  let ?s = "fp_scale x" and ?u = "fp_value x"
  have "nat \<bar>sint ?s\<bar> < 53" using p by (rule radix_power_small)
  then have nmin: "sint ?s \<noteq> - (2 ^ 31)" by auto
  have ru: "rep_to_double ?u = Finite (of_int (sint ?u))"
    using u by (rule rep_to_double_exact)
  show ?thesis
  proof (cases "0 < sint ?s")
    case True
    then have a: "\<bar>sint ?s\<bar> = sint ?s" by simp
    have sp: "pw (radix_val Rad) (sint ?s) = Finite (of_int (radix_val Rad ^ nat (sint ?s)))"
      using e unfolding a .
    have "rat_of_int (radix_val Rad) powi sint ?s = of_int (radix_val Rad ^ nat (sint ?s))"
      using True by (simp add: power_int_def)
    then show ?thesis
      using True by (simp add: to_double_cases ru sp fmul_def)
  next
    case False
    then have a: "\<bar>sint ?s\<bar> = - sint ?s" by simp
    have sp: "pw (radix_val Rad) (- sint ?s) = Finite (of_int (radix_val Rad ^ nat (- sint ?s)))"
      using e unfolding a .
    have r0: "radix_val Rad \<noteq> 0"
      using radix_val_ge2 [of Rad] by simp
    have "rat_of_int (radix_val Rad) powi sint ?s =
            inverse (of_int (radix_val Rad ^ nat (- sint ?s)))"
      using False by (simp add: power_int_def power_inverse)
    then have "of_int (sint ?u) * rat_of_int (radix_val Rad) powi sint ?s =
                 of_int (sint ?u) / of_int (radix_val Rad ^ nat (- sint ?s))"
      by (simp add: divide_inverse)
    then show ?thesis
      using False nmin r0 by (simp add: to_double_cases ru sp fdiv_def)
  qed
qed

lemma pow_rounded_10_0: "pow_rounded 10 0 = Finite 1"
  using pow_rounded_exact [of 0 10] by simp

lemma pow_rounded_10_1: "pow_rounded 10 1 = Finite 10"
  using pow_rounded_exact [of 1 10] by simp

section \<open>Conversion to a native number\<close>








section \<open>Shifts that are exact\<close>

lemma trunc_of_int [simp]: "trunc (of_int n) = n"
  by (simp add: trunc_def)

lemma double_to_rep_of_int:
  "in_range TYPE('a::len) n \<Longrightarrow> double_to_rep (Finite (of_int n)) = Some (word_of_int n :: 'a word)"
  by (simp add: double_to_rep_def in_range_def)

lemma shift_exact_power:
  assumes p: "radix_val Rad ^ nat \<bar>sint s\<bar> < 2 ^ 53"
    and e: "pw (radix_val Rad) \<bar>sint s\<bar> = Finite (of_int (radix_val Rad ^ nat \<bar>sint s\<bar>))"
  shows "shift pw Rad (Finite r) s = round_double (r * of_int (radix_val Rad) powi (- sint s))"
proof -
  have "nat \<bar>sint s\<bar> < 53" using p by (rule radix_power_small)
  then have nmin: "sint s \<noteq> - (2 ^ 31)" by auto
  have r0: "radix_val Rad \<noteq> 0" using radix_val_ge2 [of Rad] by simp
  show ?thesis
  proof (cases "0 \<le> sint s")
    case True
    then have a: "\<bar>sint s\<bar> = sint s" by simp
    have sp: "pw (radix_val Rad) (sint s) = Finite (of_int (radix_val Rad ^ nat (sint s)))"
      using e unfolding a .
    have "rat_of_int (radix_val Rad) powi (- sint s) =
            inverse (of_int (radix_val Rad ^ nat (sint s)))"
      using True by (simp add: power_int_def power_inverse)
    then have "r * rat_of_int (radix_val Rad) powi (- sint s) =
                 r / of_int (radix_val Rad ^ nat (sint s))"
      by (simp add: divide_inverse)
    then show ?thesis
      using True r0 by (simp add: shift_cases sp fdiv_def)
  next
    case False
    then have a: "\<bar>sint s\<bar> = - sint s" by simp
    have neg: "sint (- s) = - sint s" using nmin by (rule sint_uminus_scale)
    have sp: "pw (radix_val Rad) (- sint s) = Finite (of_int (radix_val Rad ^ nat (- sint s)))"
      using e unfolding a .
    have "rat_of_int (radix_val Rad) powi (- sint s) = of_int (radix_val Rad ^ nat (- sint s))"
      using False by (simp add: power_int_def)
    then show ?thesis
      using False by (simp add: shift_cases neg sp fmul_def)
  qed
qed

lemma div_in_range:
  fixes a p :: int
  assumes a: "in_range TYPE('a::len) a" and p: "0 < p" and d: "p dvd a"
  shows "in_range TYPE('a) (a div p)" and "\<bar>a div p\<bar> \<le> \<bar>a\<bar>"
proof -
  obtain q where aq: "a = p * q" using d by (auto simp: dvd_def)
  have q: "a div p = q" using p aq by simp
  have bounds: "(0 \<le> q \<and> q \<le> a) \<or> (q < 0 \<and> a \<le> q)"
  proof (cases "0 \<le> q")
    case True
    have "1 * q \<le> p * q" using p True by (intro mult_right_mono) simp_all
    then show ?thesis using True aq by simp
  next
    case False
    then have "p * q \<le> 1 * q" using p by (intro mult_right_mono_neg) simp_all
    then show ?thesis using False aq by simp
  qed
  show "in_range TYPE('a) (a div p)"
    using bounds a rep_limits_bounds [where 'a = 'a] unfolding q in_range_def by linarith
  show "\<bar>a div p\<bar> \<le> \<bar>a\<bar>"
    using bounds unfolding q by linarith
qed

lemma round_double_2_53: "round_double 9007199254740992 = Finite 9007199254740992"
  using round_double_exact [of 1 53] by simp

lemma round_double_2_53_plus_1: "round_double 9007199254740993 = Finite 9007199254740992"
proof -
  have "bitlen 9007199254740993 = 54"
    using bitlen_twopow_add_eq [of 1 53] by simp
  then have "floor_log2 \<bar>9007199254740993\<bar> = 53"
    using floor_log2_of_int [of 9007199254740993] by simp
  then show ?thesis
    by (simp add: round_double_def Let_def round_ties_even_def floor_rat_numeral)
qed

lemma trunc_tenth: "trunc (3602879701896397 / 36028797018963968) = 0"
  by (simp add: trunc_def floor_rat_numeral)

lemma in_range_0: "in_range TYPE('a::len) 0"
  using rep_limits_bounds [where 'a = 'a] by (simp add: in_range_def)

lemma shift_one_by_1:
  assumes "pw 10 1 = Finite 10"
  shows "shift pw BASE_10 (Finite 1) 1 = Finite (3602879701896397 / 36028797018963968)"
  using shift_exact_power [of BASE_10 1 pw 1] assms
  by (simp add: radix_val_def round_double_tenth)

lemma shift_by_0:
  assumes "\<bar>n\<bar> < 2 ^ 53" and "pw (radix_val Rad) 0 = Finite 1"
  shows "shift pw Rad (Finite (of_int n)) 0 = Finite (of_int n)"
  using shift_exact_power [of Rad 0 pw "of_int n"] assms
  by (simp add: round_double_of_int)

lemma double_to_rep_tenth:
  "double_to_rep (Finite (3602879701896397 / 36028797018963968)) = Some (0 :: 'a::len word)"
  using in_range_0 [where 'a = 'a]
  by (simp add: double_to_rep_def trunc_tenth in_range_def)

lemma ctor_one_scale_0:
  assumes "1 < LENGTH('a::len)" and p0: "pw 10 0 = Finite 1"
  shows "fixed_point_native pw BASE_10 (1 :: 32 word) 0 =
           Returns (\<lparr>fp_scale = 0, fp_value = 1\<rparr> :: 'a word fixed_point)"
proof -
  have r: "rep_to_double (1 :: 32 word) = Finite (of_int 1)"
    using rep_to_double_exact [of "1 :: 32 word"] by simp
  have s: "shift pw BASE_10 (Finite (of_int 1)) 0 = Finite (of_int 1)"
    using p0 by (intro shift_by_0) (simp_all add: radix_val_def)
  have "in_range TYPE('a) 1"
    using rep_limits_strict [OF assms(1)] rep_limits_bounds [where 'a = 'a]
    by (simp add: in_range_def)
  then have d: "double_to_rep (Finite (of_int 1)) = Some (word_of_int 1 :: 'a word)"
    by (rule double_to_rep_of_int)
  show ?thesis
    unfolding fixed_point_native_def fixed_point_double_def r s d
    by (simp add: bind_def defined_def)
qed

lemma ctor_one_scale_1:
  assumes p1: "pw 10 1 = Finite 10"
  shows "fixed_point_native pw BASE_10 (1 :: 32 word) 1 =
     Returns (\<lparr>fp_scale = 1, fp_value = 0\<rparr> :: 'a::len word fixed_point)"
proof -
  have r: "rep_to_double (1 :: 32 word) = Finite 1"
    using rep_to_double_exact [of "1 :: 32 word"] by simp
  show ?thesis
    unfolding fixed_point_native_def fixed_point_double_def r shift_one_by_1 [of pw, OF p1]
      double_to_rep_tenth
    by (simp add: bind_def defined_def)
qed

lemma plus_one_and_tenth:
  assumes len: "1 < LENGTH('a::len)" "LENGTH('a) \<le> 64" and p1: "pw 10 1 = Finite 10"
  shows "plus dbg pw BASE_10 \<lparr>fp_scale = 0, fp_value = 1 :: 'a word\<rparr> \<lparr>fp_scale = 1, fp_value = 0\<rparr> =
           Returns \<lparr>fp_scale = 1, fp_value = 0\<rparr>"
proof -
  let ?t = "3602879701896397 / 36028797018963968 :: rat"
  have one: "rep_to_double (1 :: 'a word) = Finite 1"
    using rep_to_double_exact [of "1 :: 'a word"] sint_one_word [OF len(1)] by simp
  have zero: "rep_to_double (0 :: 'a word) = Finite 0"
    using rep_to_double_exact [of "0 :: 'a word"] by simp
  have mn: "int_to_double (rep_min TYPE('a)) = Finite (of_int (rep_min TYPE('a)))"
  proof -
    have "round_double (of_int (- 1 * 2 ^ (LENGTH('a) - 1))) =
            Finite (of_int (- 1 * 2 ^ (LENGTH('a) - 1)))"
      using len by (intro round_double_exact) simp_all
    then show ?thesis by (simp add: int_to_double_def rep_min_def)
  qed
  have neg: "rat_of_int (rep_min TYPE('a)) < 0"
    using rep_limits_bounds(1) [where 'a = 'a] by simp
  have sub: "fsub (int_to_double (rep_min TYPE('a))) (Finite 0) = Finite (of_int (rep_min TYPE('a)))"
    using mn by (simp add: fsub_def fneg_def fadd_def int_to_double_def)
  have nov: "\<not> addition_overflow_double TYPE('a) (Finite ?t) (Finite 0)"
    using neg by (simp add: addition_overflow_double_def fless_def ord_key_def sub)
  have sum: "fadd (Finite ?t) (Finite 0) = Finite ?t"
    by (simp add: fadd_def round_double_tenth_again)
  have lt: "(0 :: scale_type) <s 1" "\<not> (1 :: scale_type) <s 0"
    by (simp_all add: word_sless_alt)
  show ?thesis
    unfolding plus_def Let_def
    using lt nov
    by (simp add: one zero shift_one_by_1 [of pw, OF p1] sum double_to_rep_tenth bind_def defined_def
        fixed_point_scaled_def)
qed

section \<open>Adding values of scale 0 and scale 1\<close>

text \<open>
  C1, as amended. At radix 10, for a representation of 8 to 64 bits, and given
  that \<open>std::pow(10, 0)\<close> is 1 and \<open>std::pow(10, 1)\<close> is 10, constructing 1 at
  scale 0 stores the raw value 1 and constructing 1 at scale 1 stores the raw
  value 0 (one tenth, truncated). Their sum has scale 1 and unscaled value 0: the
  operand of the smaller scale is shifted to the result scale by dividing its raw
  value by 10, which gives one tenth, the other operand's raw value 0 is added, and
  the \<open>double\<close> sum is truncated on storing. This holds with and without the
  overflow check.
\<close>

theorem scenario_sum_scales_0_and_1:
  assumes "1 < LENGTH('a::len)" "LENGTH('a) \<le> 64"
    and p0: "pw 10 0 = Finite 1" and p1: "pw 10 1 = Finite 10"
  shows "fixed_point_native pw BASE_10 (1 :: 32 word) 0 =
           Returns (\<lparr>fp_scale = 0, fp_value = 1\<rparr> :: 'a word fixed_point) \<and>
         fixed_point_native pw BASE_10 (1 :: 32 word) 1 =
           Returns (\<lparr>fp_scale = 1, fp_value = 0\<rparr> :: 'a word fixed_point) \<and>
         shift pw BASE_10 (rep_to_double (1 :: 'a word)) (1 - 0) = round_double (1 / 10) \<and>
         trunc (1 / 10) = 0 \<and>
         plus dbg pw BASE_10 \<lparr>fp_scale = 0, fp_value = 1 :: 'a word\<rparr> \<lparr>fp_scale = 1, fp_value = 0\<rparr> =
           Returns \<lparr>fp_scale = 1, fp_value = 0\<rparr>"
proof -
  have one: "rep_to_double (1 :: 'a word) = Finite 1"
    using rep_to_double_exact [of "1 :: 'a word"] sint_one_word [OF assms(1)] by simp
  have "shift pw BASE_10 (rep_to_double (1 :: 'a word)) (1 - 0) = round_double (1 / 10)"
    by (simp add: one shift_one_by_1 [of pw, OF p1] round_double_tenth)
  moreover have "trunc (1 / 10) = 0"
    by (simp add: trunc_def floor_rat_one_numeral)
  ultimately show ?thesis
    using ctor_one_scale_0 [where 'a = 'a and pw = pw, OF assms(1) p0]
      ctor_one_scale_1 [where 'a = 'a and pw = pw, OF p1]
      plus_one_and_tenth [where pw = pw and dbg = dbg, OF assms(1,2) p1]
    by simp
qed

theorem scenario_sum_scales_0_and_1_witness:
  "1 < LENGTH(32) \<and> LENGTH(32) \<le> 64 \<and>
   pow_rounded 10 0 = Finite 1 \<and> pow_rounded 10 1 = Finite 10 \<and>
   plus True pow_rounded BASE_10 \<lparr>fp_scale = 0, fp_value = 1 :: 32 word\<rparr>
     \<lparr>fp_scale = 1, fp_value = 0\<rparr> =
     Returns \<lparr>fp_scale = 1, fp_value = 0\<rparr>"
  using scenario_sum_scales_0_and_1 [where 'a = 32 and pw = pow_rounded and dbg = True]
  by (simp add: pow_rounded_10_0 pow_rounded_10_1)

text \<open>The specification expects the unscaled value 11 here; the code stores 0.\<close>

theorem scenario_sum_counterexample:
  "fixed_point_native pow_rounded BASE_10 (1 :: 32 word) 0 =
     Returns (\<lparr>fp_scale = 0, fp_value = 1\<rparr> :: 32 word fixed_point) \<and>
   fixed_point_native pow_rounded BASE_10 (1 :: 32 word) 1 =
     Returns (\<lparr>fp_scale = 1, fp_value = 0\<rparr> :: 32 word fixed_point) \<and>
   plus False pow_rounded BASE_10 \<lparr>fp_scale = 0, fp_value = 1 :: 32 word\<rparr>
     \<lparr>fp_scale = 1, fp_value = 0\<rparr> =
     Returns \<lparr>fp_scale = 1, fp_value = 0\<rparr> \<and>
   plus True pow_rounded BASE_10 \<lparr>fp_scale = 0, fp_value = 1 :: 32 word\<rparr>
     \<lparr>fp_scale = 1, fp_value = 0\<rparr> =
     Returns \<lparr>fp_scale = 1, fp_value = 0\<rparr> \<and>
   (0 :: 32 word) \<noteq> 11"
  using ctor_one_scale_0 [where 'a = 32 and pw = pow_rounded, OF _ pow_rounded_10_0]
    ctor_one_scale_1 [where 'a = 32 and pw = pow_rounded, OF pow_rounded_10_1]
    plus_one_and_tenth [where 'a = 32 and pw = pow_rounded and dbg = False, OF _ _ pow_rounded_10_1]
    plus_one_and_tenth [where 'a = 32 and pw = pow_rounded and dbg = True, OF _ _ pow_rounded_10_1]
  by simp

section \<open>Construction followed by conversion\<close>

text \<open>
  C3, as amended. Let \<open>v\<close> be a native integer of the representation type with
  \<open>|v| < 2 ^ 53\<close> and \<open>s\<close> a scale with \<open>Radix^|s| < 2 ^ 53\<close> for which
  \<open>std::pow\<close> returns \<open>Radix^|s|\<close> itself, such that \<open>v\<close> is exactly representable
  at scale \<open>s\<close> in the stored encoding \<open>value = unscaled * Radix^s\<close>: for \<open>s \<ge> 0\<close>,
  \<open>Radix^s\<close> divides \<open>v\<close>; for \<open>s < 0\<close>, \<open>v * Radix^(-s)\<close> fits the representation
  and is below \<open>2 ^ 53\<close> in magnitude.
  Then constructing from \<open>(v, s)\<close> returns a value, and converting it back to the
  integer type returns exactly \<open>v\<close>.
\<close>

theorem round_trip_exact:
  fixes v :: "'a::len word" and s :: scale_type
  assumes small: "\<bar>sint v\<bar> < 2 ^ 53"
    and pb: "radix_val Rad ^ nat \<bar>sint s\<bar> < 2 ^ 53"
    and pe: "pw (radix_val Rad) \<bar>sint s\<bar> = Finite (of_int (radix_val Rad ^ nat \<bar>sint s\<bar>))"
    and rep: "if 0 \<le> sint s then radix_val Rad ^ nat (sint s) dvd sint v
              else \<bar>sint v * radix_val Rad ^ nat (- sint s)\<bar> < 2 ^ 53 \<and>
                   in_range TYPE('a) (sint v * radix_val Rad ^ nat (- sint s))"
  shows "\<exists>x :: 'a word fixed_point.
           fixed_point_native pw Rad v s = Returns x \<and> fp_scale x = s \<and>
           to_integer pw Rad x = Returns v"
proof -
  let ?R = "radix_val Rad"
  have r0: "0 < ?R" using radix_val_ge2 [of Rad] by simp
  define w where "w = (if 0 \<le> sint s then sint v div ?R ^ nat (sint s)
                       else sint v * ?R ^ nat (- sint s))"
  have W: "\<bar>w\<bar> < 2 ^ 53 \<and> in_range TYPE('a) w \<and>
           rat_of_int w = of_int (sint v) * of_int ?R powi (- sint s) \<and>
           rat_of_int w * of_int ?R powi sint s = of_int (sint v)"
  proof (cases "0 \<le> sint s")
    case True
    let ?p = "?R ^ nat (sint s)"
    have p: "0 < ?p" using r0 by simp
    have d: "?p dvd sint v" using rep True by simp
    have weq: "w = sint v div ?p" using True by (simp add: w_def)
    have le: "\<bar>w\<bar> \<le> \<bar>sint v\<bar>"
      unfolding weq using sint_in_range [of v] p d by (rule div_in_range(2))
    have wr: "in_range TYPE('a) w"
      unfolding weq using sint_in_range [of v] p d by (rule div_in_range(1))
    have ex: "rat_of_int w = of_int (sint v) / of_int ?p"
      unfolding weq using d by (rule of_int_div)
    have pi: "rat_of_int ?R powi sint s = of_int ?p"
      using True by (simp add: power_int_def)
    have pi': "rat_of_int ?R powi (- sint s) = inverse (of_int ?p)"
      using True by (simp add: power_int_def power_inverse)
    have pnz: "rat_of_int ?p \<noteq> 0" using r0 by simp
    have 1: "\<bar>w\<bar> < 2 ^ 53" using le small by linarith
    have 3: "rat_of_int w = of_int (sint v) * of_int ?R powi (- sint s)"
      unfolding ex pi' by (simp add: divide_inverse)
    have 4: "rat_of_int w * of_int ?R powi sint s = of_int (sint v)"
      unfolding ex pi using pnz by simp
    from 1 wr 3 4 show ?thesis by blast
  next
    case False
    let ?p = "?R ^ nat (- sint s)"
    have weq: "w = sint v * ?p" using False by (simp add: w_def)
    have pi: "rat_of_int ?R powi sint s = inverse (of_int ?p)"
      using False by (simp add: power_int_def power_inverse)
    have pi': "rat_of_int ?R powi (- sint s) = of_int ?p"
      using False by (simp add: power_int_def)
    have pnz: "rat_of_int ?p \<noteq> 0" using r0 by simp
    have 1: "\<bar>w\<bar> < 2 ^ 53" using rep False by (simp add: weq)
    have 2: "in_range TYPE('a) w" using rep False by (simp add: weq)
    have 3: "rat_of_int w = of_int (sint v) * of_int ?R powi (- sint s)"
      unfolding weq pi' by simp
    have 4: "rat_of_int w * of_int ?R powi sint s = of_int (sint v)"
      unfolding weq pi using pnz by simp
    from 1 2 3 4 show ?thesis by blast
  qed
  then have w_small: "\<bar>w\<bar> < 2 ^ 53" and w_range: "in_range TYPE('a) w"
    and w_val: "rat_of_int w = of_int (sint v) * of_int ?R powi (- sint s)"
    and w_back: "rat_of_int w * of_int ?R powi sint s = of_int (sint v)"
    by blast+
  define x :: "'a word fixed_point" where "x = \<lparr>fp_scale = s, fp_value = word_of_int w\<rparr>"
  have sw: "sint (word_of_int w :: 'a word) = w"
    using w_range by (rule sint_word_of_int_in_range)
  have "shift pw Rad (rep_to_double v) s = shift pw Rad (Finite (of_int (sint v))) s"
    by (simp only: rep_to_double_exact [OF small])
  also have "\<dots> = round_double (of_int (sint v) * of_int ?R powi (- sint s))"
    by (rule shift_exact_power [of Rad s pw, OF pb pe])
  also have "\<dots> = round_double (of_int w)"
    by (simp only: w_val)
  also have "\<dots> = Finite (of_int w)"
    using w_small by (rule round_double_of_int)
  finally have sh: "shift pw Rad (rep_to_double v) s = Finite (of_int w)" .
  have c: "fixed_point_native pw Rad v s = Returns x"
    unfolding fixed_point_native_def fixed_point_double_def sh
      double_to_rep_of_int [OF w_range]
    by (simp add: bind_def defined_def x_def)
  have "to_double pw Rad x =
          round_double (of_int (sint (fp_value x)) * of_int ?R powi sint (fp_scale x))"
  proof (rule to_double_exact_operands)
    show "\<bar>sint (fp_value x)\<bar> < 2 ^ 53" using w_small by (simp add: x_def sw)
    show "radix_val Rad ^ nat \<bar>sint (fp_scale x)\<bar> < 2 ^ 53" using pb by (simp add: x_def)
    show "pw (radix_val Rad) \<bar>sint (fp_scale x)\<bar> =
            Finite (of_int (radix_val Rad ^ nat \<bar>sint (fp_scale x)\<bar>))"
      using pe by (simp only: x_def fixed_point.simps)
  qed
  also have "\<dots> = round_double (of_int w * of_int ?R powi sint s)"
    by (simp only: x_def sw fixed_point.simps)
  also have "\<dots> = round_double (of_int (sint v))"
    by (simp only: w_back)
  also have "\<dots> = Finite (of_int (sint v))"
    using small by (rule round_double_of_int)
  finally have td: "to_double pw Rad x = Finite (of_int (sint v))" .
  have "(to_integer pw Rad x :: 'a word outcome) = Returns (word_of_int (sint v))"
    unfolding to_integer_same_type td double_to_rep_of_int [OF sint_in_range]
    by (simp add: defined_def)
  then have "to_integer pw Rad x = Returns v" by simp
  with c show ?thesis by (auto simp: x_def)
qed

theorem round_trip_exact_witness:
  "\<bar>sint (125 :: 32 word)\<bar> < 2 ^ 53 \<and>
   radix_val BASE_10 ^ nat \<bar>sint (- 2 :: scale_type)\<bar> < 2 ^ 53 \<and>
   pow_rounded (radix_val BASE_10) \<bar>sint (- 2 :: scale_type)\<bar> =
     Finite (of_int (radix_val BASE_10 ^ nat \<bar>sint (- 2 :: scale_type)\<bar>)) \<and>
   \<not> 0 \<le> sint (- 2 :: scale_type) \<and>
   \<bar>sint (125 :: 32 word) * radix_val BASE_10 ^ nat (- sint (- 2 :: scale_type))\<bar> < 2 ^ 53 \<and>
   in_range TYPE(32) (sint (125 :: 32 word) * radix_val BASE_10 ^ nat (- sint (- 2 :: scale_type))) \<and>
   0 \<le> sint (2 :: scale_type) \<and>
   radix_val BASE_10 ^ nat (sint (2 :: scale_type)) dvd sint (1200 :: 32 word) \<and>
   (\<exists>x :: 32 word fixed_point.
      fixed_point_native pow_rounded BASE_10 (125 :: 32 word) (- 2) = Returns x \<and> fp_scale x = - 2 \<and>
      to_integer pow_rounded BASE_10 x = Returns (125 :: 32 word)) \<and>
   (\<exists>x :: 32 word fixed_point.
      fixed_point_native pow_rounded BASE_10 (1200 :: 32 word) 2 = Returns x \<and> fp_scale x = 2 \<and>
      to_integer pow_rounded BASE_10 x = Returns (1200 :: 32 word))"
proof -
  have a: "\<bar>sint (125 :: 32 word)\<bar> < 2 ^ 53"
    "radix_val BASE_10 ^ nat \<bar>sint (- 2 :: scale_type)\<bar> < 2 ^ 53"
    "pow_rounded (radix_val BASE_10) \<bar>sint (- 2 :: scale_type)\<bar> =
       Finite (of_int (radix_val BASE_10 ^ nat \<bar>sint (- 2 :: scale_type)\<bar>))"
    "\<not> 0 \<le> sint (- 2 :: scale_type)"
    "\<bar>sint (125 :: 32 word) * radix_val BASE_10 ^ nat (- sint (- 2 :: scale_type))\<bar> < 2 ^ 53"
    "in_range TYPE(32) (sint (125 :: 32 word) * radix_val BASE_10 ^ nat (- sint (- 2 :: scale_type)))"
    by (simp_all add: radix_val_def in_range_def rep_min_def rep_max_def pow_rounded_10_2)
  have b: "\<bar>sint (1200 :: 32 word)\<bar> < 2 ^ 53"
    "radix_val BASE_10 ^ nat \<bar>sint (2 :: scale_type)\<bar> < 2 ^ 53"
    "pow_rounded (radix_val BASE_10) \<bar>sint (2 :: scale_type)\<bar> =
       Finite (of_int (radix_val BASE_10 ^ nat \<bar>sint (2 :: scale_type)\<bar>))"
    "0 \<le> sint (2 :: scale_type)"
    "radix_val BASE_10 ^ nat (sint (2 :: scale_type)) dvd sint (1200 :: 32 word)"
    by (simp_all add: radix_val_def pow_rounded_10_2)
  have "\<exists>x :: 32 word fixed_point.
      fixed_point_native pow_rounded BASE_10 (125 :: 32 word) (- 2) = Returns x \<and> fp_scale x = - 2 \<and>
      to_integer pow_rounded BASE_10 x = Returns (125 :: 32 word)"
  proof (rule round_trip_exact)
    show "if 0 \<le> sint (- 2 :: scale_type)
          then radix_val BASE_10 ^ nat (sint (- 2 :: scale_type)) dvd sint (125 :: 32 word)
          else \<bar>sint (125 :: 32 word) * radix_val BASE_10 ^ nat (- sint (- 2 :: scale_type))\<bar>
                 < 2 ^ 53 \<and>
               in_range TYPE(32)
                 (sint (125 :: 32 word) * radix_val BASE_10 ^ nat (- sint (- 2 :: scale_type)))"
      using a(4,5,6) by (simp only: if_False simp_thms)
  qed (rule a)+
  moreover have "\<exists>x :: 32 word fixed_point.
      fixed_point_native pow_rounded BASE_10 (1200 :: 32 word) 2 = Returns x \<and> fp_scale x = 2 \<and>
      to_integer pow_rounded BASE_10 x = Returns (1200 :: 32 word)"
  proof (rule round_trip_exact)
    show "if 0 \<le> sint (2 :: scale_type)
          then radix_val BASE_10 ^ nat (sint (2 :: scale_type)) dvd sint (1200 :: 32 word)
          else \<bar>sint (1200 :: 32 word) * radix_val BASE_10 ^ nat (- sint (2 :: scale_type))\<bar>
                 < 2 ^ 53 \<and>
               in_range TYPE(32)
                 (sint (1200 :: 32 word) * radix_val BASE_10 ^ nat (- sint (2 :: scale_type)))"
      using b(4,5) by (simp only: if_True)
  qed (rule b)+
  ultimately show ?thesis using a b by blast
qed

text \<open>
  Without those bounds the round trip fails: a 64-bit \<open>v = 2 ^ 53 + 1\<close> at scale 0
  is rounded to \<open>2 ^ 53\<close> by the conversion to \<open>double\<close>, and for \<open>v = 1\<close> at scale 1
  the constructor stores 0.
\<close>

theorem round_trip_counterexample:
  "fixed_point_native pow_rounded BASE_10 (9007199254740993 :: 64 word) 0 =
     Returns (\<lparr>fp_scale = 0, fp_value = 9007199254740992\<rparr> :: 64 word fixed_point) \<and>
   (to_integer pow_rounded BASE_10 \<lparr>fp_scale = 0, fp_value = 9007199254740992 :: 64 word\<rparr>
      :: 64 word outcome) = Returns 9007199254740992 \<and>
   (9007199254740992 :: 64 word) \<noteq> 9007199254740993 \<and>
   fixed_point_native pow_rounded BASE_10 (1 :: 32 word) 1 =
     Returns (\<lparr>fp_scale = 1, fp_value = 0\<rparr> :: 32 word fixed_point) \<and>
   (to_integer pow_rounded BASE_10 \<lparr>fp_scale = 1, fp_value = 0 :: 32 word\<rparr>
      :: 32 word outcome) = Returns 0 \<and>
   (0 :: 32 word) \<noteq> 1"
proof -
  have r: "rep_to_double (9007199254740993 :: 64 word) = Finite (of_int 9007199254740992)"
    by (simp add: rep_to_double_def int_to_double_def round_double_2_53_plus_1)
  have s: "shift pow_rounded BASE_10 (Finite (of_int 9007199254740992)) 0 = Finite (of_int 9007199254740992)"
    using shift_exact_power [of BASE_10 0 pow_rounded 9007199254740992]
    by (simp add: round_double_2_53 radix_val_def pow_rounded_10_0)
  have d: "double_to_rep (Finite (of_int 9007199254740992)) =
             Some (word_of_int 9007199254740992 :: 64 word)"
    by (rule double_to_rep_of_int) (simp add: in_range_def rep_min_def rep_max_def)
  have c: "fixed_point_native pow_rounded BASE_10 (9007199254740993 :: 64 word) 0 =
     Returns (\<lparr>fp_scale = 0, fp_value = 9007199254740992\<rparr> :: 64 word fixed_point)"
    unfolding fixed_point_native_def fixed_point_double_def r s d
    by (simp add: bind_def defined_def)
  have r2: "rep_to_double (9007199254740992 :: 64 word) = Finite (of_int 9007199254740992)"
    by (simp add: rep_to_double_def int_to_double_def round_double_2_53)
  have "to_double pow_rounded BASE_10 \<lparr>fp_scale = 0, fp_value = 9007199254740992 :: 64 word\<rparr> =
          shift pow_rounded BASE_10 (Finite (of_int 9007199254740992)) 0"
    by (simp add: to_double_def r2 negate_eq)
  then have td: "to_double pow_rounded BASE_10 \<lparr>fp_scale = 0, fp_value = 9007199254740992 :: 64 word\<rparr> =
          Finite 9007199254740992"
    using s by simp
  have d': "double_to_rep (Finite 9007199254740992) = Some (9007199254740992 :: 64 word)"
    using d by simp
  have "(to_integer pow_rounded BASE_10 \<lparr>fp_scale = 0, fp_value = 9007199254740992 :: 64 word\<rparr>
               :: 64 word outcome) = Returns 9007199254740992"
    by (simp add: to_integer_same_type td d' defined_def)
  moreover have "(to_integer pow_rounded BASE_10 \<lparr>fp_scale = 1, fp_value = 0 :: 32 word\<rparr> :: 32 word outcome) =
      Returns 0"
  proof -
    have "to_double pow_rounded BASE_10 \<lparr>fp_scale = 1, fp_value = 0 :: 32 word\<rparr> = Finite 0"
      using to_double_exact_operands [of "\<lparr>fp_scale = 1, fp_value = 0 :: 32 word\<rparr>" BASE_10
          pow_rounded]
      by (simp add: radix_val_def round_double_def pow_rounded_10_1)
    moreover have "double_to_rep (Finite 0) = Some (0 :: 32 word)"
      using double_to_rep_of_int [OF in_range_0, where 'a = 32] by simp
    ultimately show ?thesis
      by (simp add: to_integer_same_type defined_def)
  qed
  ultimately show ?thesis
    using c ctor_one_scale_1 [where 'a = 32 and pw = pow_rounded, OF pow_rounded_10_1] by simp
qed

section \<open>The accessor \<open>get\<close>\<close>












end
